theory Spec2Isabelle
  imports Main "HOL-Library.Word" "HOL-Library.Code_Target_Nat"
begin

section \<open>Data model of the view drawing code (src/draw.c)\<close>

text \<open>
  The structures of \<^verbatim>\<open>tig/view.h\<close>, \<^verbatim>\<open>tig/line.h\<close> and \<^verbatim>\<open>tig/graph.h\<close> are
  used by \<^verbatim>\<open>draw.c\<close> but declared elsewhere. Only the members that \<^verbatim>\<open>draw.c\<close>
  reads or writes are kept.

  The column cursor \<^verbatim>\<open>view->col\<close> and the horizontal scroll offset
  \<^verbatim>\<open>view->pos.col\<close> are \<^verbatim>\<open>unsigned long\<close>, 64 bits wide as on the 64-bit Unix
  systems (\<^verbatim>\<open>size_t\<close> is as wide): they are words, and their arithmetic wraps
  around. \<^verbatim>\<open>view->width\<close> and the locals and parameters declared \<^verbatim>\<open>int\<close> are
  integers; whenever C converts between the two types the conversion is written out
  (\<open>word_of_int\<close> from \<^verbatim>\<open>int\<close> to \<^verbatim>\<open>unsigned long\<close>, \<open>int_of_ulong\<close> back).
  Signed overflow, which C leaves undefined, is not modelled. Row counts and row indexes
  are natural numbers.
\<close>

type_synonym ulong = "64 word"

text \<open>
  The conversion of an \<^verbatim>\<open>unsigned long\<close> to \<^verbatim>\<open>int\<close>: the low 32 bits, read as
  two's complement.
\<close>

definition int_of_ulong :: "ulong \<Rightarrow> int" where
  "int_of_ulong x = sint (ucast x :: 32 word)"

datatype line_type =
    LINE_NONE | LINE_DEFAULT | LINE_CURSOR | LINE_DELIMITER | LINE_OVERFLOW
  | LINE_DATE | LINE_AUTHOR | LINE_ID | LINE_FILE | LINE_DIRECTORY | LINE_FILE_SIZE
  | LINE_MODE | LINE_LINE_NUMBER | LINE_GRAPH_COMMIT
  | LINE_PALETTE_0 | LINE_PALETTE_1 | LINE_PALETTE_2 | LINE_PALETTE_3
  | LINE_PALETTE_4 | LINE_PALETTE_5 | LINE_PALETTE_6
  | LINE_OTHER nat

text \<open>A curses cell value: a character code, or a line drawing code such as \<^verbatim>\<open>ACS_VLINE\<close>.\<close>

type_synonym chtype = nat

text \<open>
  The curses window is write-only for \<^verbatim>\<open>draw.c\<close>: it is modelled by the list of the
  curses calls made on it, oldest first.
\<close>

datatype wop =
    Wattrset line_type
  | Wchgat line_type
  | Waddnstr string int
  | Waddch chtype
  | Wmove nat nat
  | Wclrtoeol
  | Wnoutrefresh

record position =
  p_offset :: nat
  p_col :: ulong
  p_lineno :: nat

record line =
  l_type :: line_type
  l_selected :: bool
  l_dirty :: bool
  l_cleareol :: bool

text \<open>
  \<^verbatim>\<open>view->line\<close> with its count \<^verbatim>\<open>view->lines\<close> is the list \<open>v_line\<close>;
  \<^verbatim>\<open>view->curline\<close> points into that array and is the index \<open>v_curline\<close>;
  \<^verbatim>\<open>view->columns_info[i].width\<close> is \<open>v_columns_info ! i\<close>.
\<close>

record view =
  v_width :: int
  v_height :: int
  v_pos :: position
  v_col :: ulong
  v_curline :: nat
  v_curtype :: line_type
  v_line :: "line list"
  v_digits :: nat
  v_columns_info :: "int list"
  v_win :: "wop list"

definition v_lines :: "view \<Rightarrow> nat" where
  "v_lines view = length (v_line view)"

datatype align = ALIGN_LEFT | ALIGN_RIGHT

datatype date = DATE_NO | DATE_DEFAULT | DATE_SHORT

datatype author = AUTHOR_NO | AUTHOR_FULL | AUTHOR_ABBREVIATED

datatype filename = FILENAME_NO | FILENAME_ALWAYS | FILENAME_AUTO

datatype file_size = FILE_SIZE_NO | FILE_SIZE_DEFAULT | FILE_SIZE_UNITS

text \<open>The graphics mode indexes the table of graph drawing functions: ascii, chtype, utf8.\<close>

datatype graphic = GRAPHIC_ASCII | GRAPHIC_DEFAULT | GRAPHIC_UTF_8

datatype view_column =
    VIEW_COLUMN_DATE | VIEW_COLUMN_AUTHOR | VIEW_COLUMN_REF | VIEW_COLUMN_ID
  | VIEW_COLUMN_LINE_NUMBER | VIEW_COLUMN_MODE | VIEW_COLUMN_FILE_SIZE
  | VIEW_COLUMN_COMMIT_TITLE | VIEW_COLUMN_FILE_NAME | VIEW_COLUMN_TEXT

record ref =
  ref_name :: string
  ref_valid :: bool
  ref_kind :: nat

record graph_symbol =
  gs_color :: nat
  gs_commit :: bool
  gs_shape :: nat

type_synonym graph_canvas = "graph_symbol list"

record ident =
  ident_name :: string
  ident_email :: string

record time =
  time_sec :: int
  time_tz :: int

text \<open>The column values of one row; a null pointer is \<open>None\<close>.\<close>

record view_columns =
  vc_author :: "ident option"
  vc_commit_title :: "string option"
  vc_date :: "time option"
  vc_file_name :: "string option"
  vc_file_size :: "nat option"
  vc_graph :: "graph_canvas option"
  vc_id :: "string option"
  vc_mode :: "nat option"
  vc_ref :: "ref option"
  vc_refs :: "ref list option"
  vc_text :: string

text \<open>
  The options and the helper functions that \<^verbatim>\<open>draw.c\<close> takes from the headers it
  includes. None of them is defined in \<^verbatim>\<open>draw.c\<close>, so they are parameters of the model.

  \<^item> \<open>utf8_length string skip max_width reserve tab_size\<close> returns
    \<open>(len, string', width, trimmed)\<close>: the byte count to write, the string advanced past
    the skipped part, the display columns counted, and the truncation flag.
  \<^item> \<open>encoding_iconv\<close> returns \<open>None\<close> for the null pointer; \<open>opt_iconv_out\<close> says whether
    an output conversion is configured (\<^verbatim>\<open>opt_iconv_out != ICONV_NONE\<close>).
  \<^item> \<open>string_expand string tab_size\<close> returns the expanded text and the number of source
    bytes it consumed.
  \<^item> \<open>string_format fmt n\<close> is the formatted number, or \<open>None\<close> when formatting fails.
  \<^item> \<open>format_buffer fmt arg\<close> is the text and \<^verbatim>\<open>retval\<close> of \<^verbatim>\<open>FORMAT_BUFFER\<close>.
\<close>

record env =
  opt_tab_size :: int
  opt_iconv_out :: bool
  encoding_iconv :: "string \<Rightarrow> int \<Rightarrow> string option"
  utf8_length :: "string \<Rightarrow> nat \<Rightarrow> int \<Rightarrow> bool \<Rightarrow> int \<Rightarrow> int \<times> string \<times> int \<times> bool"
  utf8_width_max :: "string \<Rightarrow> int \<Rightarrow> int"
  utf8_width :: "string \<Rightarrow> int"
  string_expand :: "string \<Rightarrow> int \<Rightarrow> string \<times> nat"
  string_format :: "string \<Rightarrow> nat \<Rightarrow> string option"
  format_buffer :: "string \<Rightarrow> string \<Rightarrow> string \<times> int"
  opt_show_date :: date
  DATE_SHORT_WIDTH :: int
  DATE_WIDTH :: int
  mkdate :: "time option \<Rightarrow> date \<Rightarrow> string option"
  opt_show_author :: author
  opt_author_width :: int
  author_trim :: "int \<Rightarrow> bool"
  mkauthor :: "ident option \<Rightarrow> int \<Rightarrow> author \<Rightarrow> string option"
  opt_show_id :: bool
  opt_id_width :: int
  opt_show_filename :: filename
  opt_show_filename_width :: int
  S_ISDIR :: "nat \<Rightarrow> bool"
  opt_show_file_size :: file_size
  mkfilesize :: "nat \<Rightarrow> file_size \<Rightarrow> string option"
  mkmode :: "nat \<Rightarrow> string option"
  opt_line_graphics :: graphic
  ACS_VLINE :: chtype
  opt_show_line_numbers :: bool
  opt_line_number_interval :: int
  opt_show_refs :: bool
  get_line_type_from_ref :: "ref \<Rightarrow> line_type"
  graph_symbol_to_utf8 :: "graph_symbol \<Rightarrow> string"
  graph_symbol_to_ascii :: "graph_symbol \<Rightarrow> string"
  graph_symbol_to_chtype :: "graph_symbol \<Rightarrow> chtype list"
  draw_commit_title :: "view \<Rightarrow> string option \<Rightarrow> int \<Rightarrow> view \<times> bool"

text \<open>The callbacks and the column list of \<^verbatim>\<open>view->ops\<close>; a row is named by its index.\<close>

record view_ops =
  get_columns :: "view \<Rightarrow> nat \<Rightarrow> view_columns option"
  select :: "view \<Rightarrow> nat \<Rightarrow> view"
  columns :: "view_column list"

section \<open>Clip-draw primitives\<close>

definition set_view_attr :: "view \<Rightarrow> line_type \<Rightarrow> view" where
  "set_view_attr view type =
     (if \<not> l_selected (v_line view ! v_curline view) \<and> v_curtype view \<noteq> type
      then view\<lparr>v_win := v_win view @ [Wattrset type, Wchgat type], v_curtype := type\<rparr>
      else view)"

text \<open>
  \<^verbatim>\<open>VIEW_MAX_LEN\<close> adds an \<^verbatim>\<open>int\<close> to an \<^verbatim>\<open>unsigned long\<close> and subtracts an
  \<^verbatim>\<open>unsigned long\<close>: the width is converted and the result is an \<^verbatim>\<open>unsigned long\<close>.
  Once the cursor has passed \<^verbatim>\<open>width + pos.col\<close> the difference wraps around to a
  large value, and the test \<^verbatim>\<open>VIEW_MAX_LEN(view) <= 0\<close>, an unsigned comparison, holds
  only when the value is zero.

  \<^verbatim>\<open>MIN(x, y)\<close> is \<^verbatim>\<open>((x) < (y) ? (x) : (y))\<close>. Where one operand is
  \<^verbatim>\<open>VIEW_MAX_LEN(view)\<close> and the other an \<^verbatim>\<open>int\<close>, the \<^verbatim>\<open>int\<close> is converted, the
  comparison is unsigned, and the result is converted back when it is stored in an
  \<^verbatim>\<open>int\<close>.
\<close>

definition VIEW_MAX_LEN :: "view \<Rightarrow> ulong" where
  "VIEW_MAX_LEN view = word_of_int (v_width view) + p_col (v_pos view) - v_col view"

definition waddnstr :: "view \<Rightarrow> string \<Rightarrow> int \<Rightarrow> view" where
  "waddnstr view string len = view\<lparr>v_win := v_win view @ [Waddnstr string len]\<rparr>"

definition waddch :: "view \<Rightarrow> chtype \<Rightarrow> view" where
  "waddch view c = view\<lparr>v_win := v_win view @ [Waddch c]\<rparr>"

definition draw_chars :: "env \<Rightarrow> view \<Rightarrow> line_type \<Rightarrow> string \<Rightarrow> int \<Rightarrow> bool \<Rightarrow> view \<times> bool" where
  "draw_chars env view type string max_len use_tilde =
     (let skip = (if p_col (v_pos view) > v_col view
                  then p_col (v_pos view) - v_col view else 0)
      in if max_len \<le> 0 then (view, VIEW_MAX_LEN view \<le> 0)
         else
           (case utf8_length env string (unat skip) max_len use_tilde (opt_tab_size env) of
              (len, string1, col, trimmed) \<Rightarrow>
                (case (if opt_iconv_out env then encoding_iconv env string1 len else Some string1) of
                   None \<Rightarrow> (view, VIEW_MAX_LEN view \<le> 0)
                 | Some string2 \<Rightarrow>
                     (let view1 = set_view_attr view type;
                          view2 = (if len > 0 then waddnstr view1 string2 len else view1);
                          tilde = (len > 0 \<and> trimmed \<and> use_tilde);
                          view3 = (if tilde
                                   then waddch (set_view_attr view2 LINE_DELIMITER) (of_char CHR ''~'')
                                   else view2);
                          view4 = view3\<lparr>v_col := v_col view3
                                                   + word_of_int (if tilde then col + 1 else col)\<rparr>
                      in (view4, VIEW_MAX_LEN view4 \<le> 0)))))"

text \<open>The static buffer of twenty blanks of \<^verbatim>\<open>draw_space\<close>.\<close>

definition space :: string where
  "space = replicate 20 CHR '' ''"

function draw_space_loop :: "env \<Rightarrow> view \<Rightarrow> line_type \<Rightarrow> int \<Rightarrow> view \<times> bool" where
  "draw_space_loop env view type spaces =
     (if spaces > 0
      then (let len = min spaces 20;
                res = draw_chars env view type space len False
            in if snd res then (fst res, True)
               else draw_space_loop env (fst res) type (spaces - len))
      else (view, VIEW_MAX_LEN view \<le> 0))"
  by pat_completeness auto
termination
  by (relation "measure (\<lambda>(env, view, type, spaces). nat spaces)") auto

definition draw_space :: "env \<Rightarrow> view \<Rightarrow> line_type \<Rightarrow> int \<Rightarrow> int \<Rightarrow> view \<times> bool" where
  "draw_space env view type mx spaces = draw_space_loop env view type (min mx spaces)"

text \<open>
  \<^verbatim>\<open>draw_graphic\<close> stores \<^verbatim>\<open>VIEW_MAX_LEN(view)\<close> in the \<^verbatim>\<open>int max\<close> and compares
  it with the \<^verbatim>\<open>size_t size\<close>. C converts \<^verbatim>\<open>max\<close> to \<^verbatim>\<open>size_t\<close> first, so a
  negative \<^verbatim>\<open>max\<close> counts as a value above every array size: \<^verbatim>\<open>max < size\<close> then
  is false and \<^verbatim>\<open>size < max\<close> is true. The loop index is the \<^verbatim>\<open>int i\<close>, which
  starts at the converted \<^verbatim>\<open>skip\<close> and is compared as a \<^verbatim>\<open>size_t\<close> too: the cells
  \<^verbatim>\<open>graphic[i .. size-1]\<close> are read when \<open>i\<close> is not negative, none otherwise.
  \<open>sz\<close> is an array size, at most the length of \<open>graphic\<close> at every call of the file.
\<close>

definition draw_graphic :: "env \<Rightarrow> view \<Rightarrow> line_type \<Rightarrow> chtype list \<Rightarrow> nat \<Rightarrow> bool \<Rightarrow> view \<times> bool" where
  "draw_graphic env view type graphic sz separator =
     (let skip = (if p_col (v_pos view) > v_col view
                  then p_col (v_pos view) - v_col view else 0);
          mx = int_of_ulong (VIEW_MAX_LEN view);
          sz1 = (if 0 \<le> mx \<and> mx < int sz then nat mx else sz);
          view1 = set_view_attr view type;
          i = int_of_ulong skip;
          view2 = view1\<lparr>v_win := v_win view1
                     @ map Waddch (if 0 \<le> i then drop (nat i) (take sz1 graphic) else [])\<rparr>;
          view3 = view2\<lparr>v_col := v_col view2 + of_nat sz1\<rparr>;
          view4 = (if separator
                   then (let view5 = (if (mx < 0 \<or> int sz1 < mx) \<and> unat skip \<le> sz1
                                      then waddch view3 (of_char CHR '' '') else view3)
                         in view5\<lparr>v_col := v_col view5 + 1\<rparr>)
                   else view3)
      in (view4, VIEW_MAX_LEN view4 \<le> 0))"

section \<open>Field layout\<close>

text \<open>
  The last statement of \<^verbatim>\<open>draw_field\<close>: the text, then the trailing blanks. The budget
  of the blanks, \<^verbatim>\<open>max - (view->col - col)\<close>, is computed on \<^verbatim>\<open>unsigned long\<close> and
  converted to the \<^verbatim>\<open>int\<close> parameter of \<^verbatim>\<open>draw_space\<close>.
\<close>

definition draw_field_text :: "env \<Rightarrow> view \<Rightarrow> line_type \<Rightarrow> string \<Rightarrow> int \<Rightarrow> int \<Rightarrow> bool \<Rightarrow> view \<times> bool" where
  "draw_field_text env view type text mx col trim =
     (let res = draw_chars env view type text (mx - 1) trim
      in if snd res then (fst res, True)
         else draw_space env (fst res) LINE_DEFAULT
                (int_of_ulong (word_of_int mx - (v_col (fst res) - word_of_int col))) mx)"

definition draw_field :: "env \<Rightarrow> view \<Rightarrow> line_type \<Rightarrow> string option \<Rightarrow> int \<Rightarrow> align \<Rightarrow> bool \<Rightarrow> view \<times> bool" where
  "draw_field env view type text width align trim =
     (let mx = int_of_ulong (min (VIEW_MAX_LEN view) (word_of_int (width + 1)));
          col = int_of_ulong (v_col view)
      in case text of
           None \<Rightarrow> draw_space env view type mx mx
         | Some t \<Rightarrow>
             if align = ALIGN_RIGHT
             then (let textlen = utf8_width_max env t mx;
                       leftpad = mx - textlen - 1
                   in if leftpad > 0
                      then (let res = draw_space env view type leftpad leftpad
                            in if snd res then (fst res, True)
                               else draw_field_text env (fst res) type t (mx - leftpad)
                                      (col + leftpad) trim)
                      else draw_field_text env view type t mx col trim)
             else draw_field_text env view type t mx col trim)"

text \<open>
  The loop of \<^verbatim>\<open>draw_text_expanded\<close> runs until the string is used up or the viewport
  is full; \<open>None\<close> stands for a call that does not return. \<^verbatim>\<open>string += pos\<close> is
  \<open>drop pos string\<close>: \<^verbatim>\<open>string_expand\<close> returns a count of source bytes.
\<close>

partial_function (option) draw_text_expanded ::
  "env \<Rightarrow> view \<Rightarrow> line_type \<Rightarrow> string \<Rightarrow> int \<Rightarrow> bool \<Rightarrow> (view \<times> bool) option" where
  "draw_text_expanded env view type string max_len use_tilde =
     (let text = fst (string_expand env string (opt_tab_size env));
          pos = snd (string_expand env string (opt_tab_size env));
          res = draw_chars env view type text max_len use_tilde
      in if snd res then Some (fst res, True)
         else if drop pos string \<noteq> []
              then draw_text_expanded env (fst res) type (drop pos string) max_len use_tilde
              else Some (fst res, VIEW_MAX_LEN (fst res) \<le> 0))"

declare draw_text_expanded.simps [code]

definition draw_text :: "env \<Rightarrow> view \<Rightarrow> line_type \<Rightarrow> string \<Rightarrow> (view \<times> bool) option" where
  "draw_text env view type string =
     draw_text_expanded env view type string (int_of_ulong (VIEW_MAX_LEN view)) True"

definition draw_text_overflow ::
  "env \<Rightarrow> view \<Rightarrow> string \<Rightarrow> bool \<Rightarrow> int \<Rightarrow> line_type \<Rightarrow> (view \<times> bool) option" where
  "draw_text_overflow env view text on overflow type =
     (let rest = (\<lambda>view1 text1 type1.
            if text1 \<noteq> [] then
              (case draw_text env view1 type1 text1 of
                 None \<Rightarrow> None
               | Some (view2, full) \<Rightarrow>
                   if full then Some (view2, True) else Some (view2, VIEW_MAX_LEN view2 \<le> 0))
            else Some (view1, VIEW_MAX_LEN view1 \<le> 0))
      in if on then
           (let mx = int_of_ulong (min (VIEW_MAX_LEN view) (word_of_int overflow));
                len = int (length text)
            in case draw_text_expanded env view type text mx (mx < overflow) of
                 None \<Rightarrow> None
               | Some (view1, full) \<Rightarrow>
                   if full then Some (view1, True)
                   else rest view1 (if len > overflow then drop (nat overflow) text else [])
                          LINE_OVERFLOW)
         else rest view text type)"

definition draw_formatted ::
  "env \<Rightarrow> view \<Rightarrow> line_type \<Rightarrow> string \<Rightarrow> string \<Rightarrow> (view \<times> bool) option" where
  "draw_formatted env view type format arg =
     (let text = fst (format_buffer env format arg);
          retval = snd (format_buffer env format arg)
      in if retval \<ge> 0 then draw_text env view type text
         else Some (view, VIEW_MAX_LEN view \<le> 0))"

section \<open>Typed fields\<close>

definition draw_date :: "env \<Rightarrow> view \<Rightarrow> time option \<Rightarrow> view \<times> bool" where
  "draw_date env view time =
     (let date = mkdate env time (opt_show_date env);
          cols = (if opt_show_date env = DATE_SHORT then DATE_SHORT_WIDTH env else DATE_WIDTH env)
      in if opt_show_date env = DATE_NO then (view, False)
         else draw_field env view LINE_DATE date cols ALIGN_LEFT False)"

definition draw_author :: "env \<Rightarrow> view \<Rightarrow> ident option \<Rightarrow> int \<Rightarrow> view \<times> bool" where
  "draw_author env view author width =
     (let trim = author_trim env width;
          text = mkauthor env author width (opt_show_author env)
      in if opt_show_author env = AUTHOR_NO then (view, False)
         else draw_field env view LINE_AUTHOR text width ALIGN_LEFT trim)"

definition draw_id_custom :: "env \<Rightarrow> view \<Rightarrow> line_type \<Rightarrow> string option \<Rightarrow> int \<Rightarrow> view \<times> bool" where
  "draw_id_custom env view type id0 width = draw_field env view type id0 width ALIGN_LEFT False"

definition draw_id :: "env \<Rightarrow> view \<Rightarrow> string option \<Rightarrow> view \<times> bool" where
  "draw_id env view id0 =
     (if \<not> opt_show_id env then (view, False)
      else draw_id_custom env view LINE_ID id0 (opt_id_width env))"

definition draw_filename ::
  "env \<Rightarrow> view \<Rightarrow> string option \<Rightarrow> bool \<Rightarrow> nat \<Rightarrow> int \<Rightarrow> view \<times> bool" where
  "draw_filename env view filename auto_enabled mode width =
     (let trim = (case filename of None \<Rightarrow> False | Some f \<Rightarrow> utf8_width env f \<ge> width);
          type = (if S_ISDIR env mode then LINE_DIRECTORY else LINE_FILE)
      in if opt_show_filename env = FILENAME_NO then (view, False)
         else if opt_show_filename env = FILENAME_AUTO \<and> \<not> auto_enabled then (view, False)
         else draw_field env view type filename width ALIGN_LEFT trim)"

definition draw_file_size :: "env \<Rightarrow> view \<Rightarrow> nat \<Rightarrow> int \<Rightarrow> bool \<Rightarrow> view \<times> bool" where
  "draw_file_size env view fsize width pad =
     (let str = (if pad then None else mkfilesize env fsize (opt_show_file_size env))
      in if width = 0 \<or> opt_show_file_size env = FILE_SIZE_NO then (view, False)
         else draw_field env view LINE_FILE_SIZE str width ALIGN_RIGHT False)"

definition draw_mode :: "env \<Rightarrow> view \<Rightarrow> nat \<Rightarrow> view \<times> bool" where
  "draw_mode env view mode =
     (let str = mkmode env mode
      in draw_field env view LINE_MODE str (int (length ''-rw-r--r--'')) ALIGN_LEFT False)"

text \<open>
  The line number: \<^verbatim>\<open>fmt\<close> is \<^verbatim>\<open>"%ld"\<close> with its second character overwritten by the
  digit \<^verbatim>\<open>'0' + n\<close>. The remainder is taken on \<^verbatim>\<open>unsigned int\<close>, so \<open>interval\<close> is
  converted first; a zero divisor traps, which is the result \<open>None\<close>.
\<close>

definition digits3 :: "view \<Rightarrow> nat" where
  "digits3 view = (if v_digits view < 3 then 3 else v_digits view)"

definition lineno_fmt :: "view \<Rightarrow> string" where
  "lineno_fmt view =
     [CHR ''%'', char_of (of_char CHR ''0'' + (if v_digits view \<le> 9 then digits3 view else 1)),
      CHR ''d'']"

definition to_uint :: "int \<Rightarrow> nat" where
  "to_uint i = nat (i mod 2 ^ 32)"

definition draw_lineno_custom ::
  "env \<Rightarrow> view \<Rightarrow> nat \<Rightarrow> bool \<Rightarrow> int \<Rightarrow> (view \<times> bool) option" where
  "draw_lineno_custom env view lineno show interval =
     (let mx = int_of_ulong (min (VIEW_MAX_LEN view) (word_of_int (int (digits3 view))));
          separator = (if opt_line_graphics env \<noteq> GRAPHIC_ASCII then ACS_VLINE env
                       else of_char CHR ''|'')
      in if \<not> show then Some (view, False)
         else if lineno \<noteq> 1 \<and> to_uint interval = 0 then None
         else
           (let text = (if lineno = 1 \<or> lineno mod to_uint interval = 0
                        then string_format env (lineno_fmt view) lineno else None);
                view1 = (case text of
                           Some t \<Rightarrow> fst (draw_chars env view LINE_LINE_NUMBER t mx True)
                         | None \<Rightarrow> fst (draw_space env view LINE_LINE_NUMBER mx (int (digits3 view))))
            in Some (draw_graphic env view1 LINE_DEFAULT [separator] 1 True)))"

definition draw_lineno :: "env \<Rightarrow> view \<Rightarrow> nat \<Rightarrow> (view \<times> bool) option" where
  "draw_lineno env view lineno =
     draw_lineno_custom env view ((lineno + p_offset (v_pos view) + 1) mod 2 ^ 32)
       (opt_show_line_numbers env) (opt_line_number_interval env)"

fun draw_refs_loop :: "env \<Rightarrow> view \<Rightarrow> ref list \<Rightarrow> (view \<times> bool) option" where
  "draw_refs_loop env view [] = Some (view, False)"
| "draw_refs_loop env view (ref # refs) =
     (case draw_formatted env view (get_line_type_from_ref env ref) ''[%s]'' (ref_name ref) of
        None \<Rightarrow> None
      | Some res1 \<Rightarrow>
          if snd res1 then Some (fst res1, True)
          else (case draw_text env (fst res1) LINE_DEFAULT '' '' of
                  None \<Rightarrow> None
                | Some res2 \<Rightarrow>
                    if snd res2 then Some (fst res2, True)
                    else draw_refs_loop env (fst res2) refs))"

definition draw_refs :: "env \<Rightarrow> view \<Rightarrow> ref list option \<Rightarrow> (view \<times> bool) option" where
  "draw_refs env view refs =
     (case refs of
        None \<Rightarrow> Some (view, False)
      | Some rs \<Rightarrow> if \<not> opt_show_refs env then Some (view, False) else draw_refs_loop env view rs)"

section \<open>Revision graph\<close>

definition graph_colors :: "line_type list" where
  "graph_colors =
     [LINE_PALETTE_0, LINE_PALETTE_1, LINE_PALETTE_2, LINE_PALETTE_3,
      LINE_PALETTE_4, LINE_PALETTE_5, LINE_PALETTE_6]"

text \<open>The assertion of \<^verbatim>\<open>get_graph_color\<close> aborts the program: the result \<open>None\<close>.\<close>

definition get_graph_color :: "graph_symbol \<Rightarrow> line_type option" where
  "get_graph_color symbol =
     (if gs_commit symbol then Some LINE_GRAPH_COMMIT
      else if gs_color symbol < length graph_colors then Some (graph_colors ! gs_color symbol)
      else None)"

text \<open>\<^verbatim>\<open>chars + !!first\<close> drops the first byte or cell when \<open>first\<close> is set.\<close>

definition draw_graph_utf8 ::
  "env \<Rightarrow> view \<Rightarrow> graph_symbol \<Rightarrow> line_type \<Rightarrow> bool \<Rightarrow> (view \<times> bool) option" where
  "draw_graph_utf8 env view symbol color first =
     (let chars = graph_symbol_to_utf8 env symbol
      in draw_text env view color (drop (if first then 1 else 0) chars))"

definition draw_graph_ascii ::
  "env \<Rightarrow> view \<Rightarrow> graph_symbol \<Rightarrow> line_type \<Rightarrow> bool \<Rightarrow> (view \<times> bool) option" where
  "draw_graph_ascii env view symbol color first =
     (let chars = graph_symbol_to_ascii env symbol
      in draw_text env view color (drop (if first then 1 else 0) chars))"

definition draw_graph_chtype ::
  "env \<Rightarrow> view \<Rightarrow> graph_symbol \<Rightarrow> line_type \<Rightarrow> bool \<Rightarrow> (view \<times> bool) option" where
  "draw_graph_chtype env view symbol color first =
     (let chars = graph_symbol_to_chtype env symbol
      in Some (draw_graphic env view color (drop (if first then 1 else 0) chars)
                 (2 - (if first then 1 else 0)) False))"

definition draw_graph_fn ::
  "graphic \<Rightarrow> env \<Rightarrow> view \<Rightarrow> graph_symbol \<Rightarrow> line_type \<Rightarrow> bool \<Rightarrow> (view \<times> bool) option" where
  "draw_graph_fn g =
     (case g of
        GRAPHIC_ASCII \<Rightarrow> draw_graph_ascii
      | GRAPHIC_DEFAULT \<Rightarrow> draw_graph_chtype
      | GRAPHIC_UTF_8 \<Rightarrow> draw_graph_utf8)"

fun draw_graph_loop :: "env \<Rightarrow> view \<Rightarrow> graph_symbol list \<Rightarrow> bool \<Rightarrow> (view \<times> bool) option" where
  "draw_graph_loop env view [] first = draw_text env view LINE_DEFAULT '' ''"
| "draw_graph_loop env view (symbol # symbols) first =
     (case get_graph_color symbol of
        None \<Rightarrow> None
      | Some color \<Rightarrow>
          (case draw_graph_fn (opt_line_graphics env) env view symbol color first of
             None \<Rightarrow> None
           | Some res \<Rightarrow>
               if snd res then Some (fst res, True)
               else draw_graph_loop env (fst res) symbols False))"

definition draw_graph :: "env \<Rightarrow> view \<Rightarrow> graph_canvas \<Rightarrow> (view \<times> bool) option" where
  "draw_graph env view canvas = draw_graph_loop env view canvas True"

section \<open>Column dispatcher\<close>

text \<open>
  One turn of the \<^verbatim>\<open>switch\<close> of \<^verbatim>\<open>view_columns_draw\<close>: the column \<open>column\<close> with its
  configured \<open>width\<close>. The result says whether the case executed \<^verbatim>\<open>return TRUE\<close>.
\<close>

definition draw_commit_title_column ::
  "env \<Rightarrow> view \<Rightarrow> view_columns \<Rightarrow> (view \<times> bool) option" where
  "draw_commit_title_column env view cols =
     (case (case vc_graph cols of None \<Rightarrow> Some (view, False)
                                   | Some canvas \<Rightarrow> draw_graph env view canvas) of
        None \<Rightarrow> None
      | Some res1 \<Rightarrow>
          if snd res1 then Some (fst res1, True)
          else (case draw_refs env (fst res1) (vc_refs cols) of
                  None \<Rightarrow> None
                | Some res2 \<Rightarrow>
                    if snd res2 then Some (fst res2, True)
                    else Some (draw_commit_title env (fst res2) (vc_commit_title cols) 0)))"

definition view_column_draw ::
  "env \<Rightarrow> view \<Rightarrow> nat \<Rightarrow> nat \<Rightarrow> view_columns \<Rightarrow> view_column \<Rightarrow> int \<Rightarrow> (view \<times> bool) option" where
  "view_column_draw env view line lineno cols column width =
     (case column of
        VIEW_COLUMN_DATE \<Rightarrow> Some (draw_date env view (vc_date cols))
      | VIEW_COLUMN_AUTHOR \<Rightarrow>
          Some (draw_author env view (vc_author cols)
                  (if opt_author_width env \<noteq> 0 then opt_author_width env else width))
      | VIEW_COLUMN_REF \<Rightarrow>
          (let type = (case vc_ref cols of
                         None \<Rightarrow> LINE_DEFAULT
                       | Some ref \<Rightarrow> if \<not> ref_valid ref then LINE_DEFAULT
                                      else get_line_type_from_ref env ref);
               name = (case vc_ref cols of None \<Rightarrow> None | Some ref \<Rightarrow> Some (ref_name ref))
           in Some (draw_field env view type name width ALIGN_LEFT False))
      | VIEW_COLUMN_ID \<Rightarrow>
          (let res = (if width = 0 then draw_id env view (vc_id cols) else (view, False))
           in if snd res then Some (fst res, True)
              else if opt_show_id env
                   then Some (draw_id_custom env (fst res) LINE_ID (vc_id cols) width)
                   else Some (fst res, False))
      | VIEW_COLUMN_LINE_NUMBER \<Rightarrow> draw_lineno env view lineno
      | VIEW_COLUMN_MODE \<Rightarrow>
          Some (draw_mode env view (case vc_mode cols of None \<Rightarrow> 0 | Some m \<Rightarrow> m))
      | VIEW_COLUMN_FILE_SIZE \<Rightarrow>
          Some (draw_file_size env view (case vc_file_size cols of None \<Rightarrow> 0 | Some s \<Rightarrow> s) width
                  (case vc_mode cols of None \<Rightarrow> True | Some m \<Rightarrow> S_ISDIR env m))
      | VIEW_COLUMN_COMMIT_TITLE \<Rightarrow> draw_commit_title_column env view cols
      | VIEW_COLUMN_FILE_NAME \<Rightarrow>
          Some (draw_filename env view (vc_file_name cols) True
                  (case vc_mode cols of None \<Rightarrow> 0 | Some m \<Rightarrow> m)
                  (if opt_show_filename_width env \<noteq> 0 then opt_show_filename_width env else width))
      | VIEW_COLUMN_TEXT \<Rightarrow> draw_text env view (l_type (v_line view ! line)) (vc_text cols))"

text \<open>
  The \<^verbatim>\<open>for\<close> loop of \<^verbatim>\<open>view_columns_draw\<close> from column \<open>i\<close> on; \<open>cs\<close> are the columns
  \<^verbatim>\<open>view->ops->columns[i ..]\<close>.
\<close>

fun view_columns_draw_loop ::
  "env \<Rightarrow> view \<Rightarrow> nat \<Rightarrow> nat \<Rightarrow> view_columns \<Rightarrow> view_column list \<Rightarrow> nat \<Rightarrow> (view \<times> bool) option" where
  "view_columns_draw_loop env view line lineno cols [] i = Some (view, True)"
| "view_columns_draw_loop env view line lineno cols (column # cs) i =
     (case view_column_draw env view line lineno cols column (v_columns_info view ! i) of
        None \<Rightarrow> None
      | Some res \<Rightarrow>
          if snd res then Some (fst res, True)
          else view_columns_draw_loop env (fst res) line lineno cols cs (i + 1))"

definition view_columns_draw ::
  "env \<Rightarrow> view_ops \<Rightarrow> view \<Rightarrow> nat \<Rightarrow> nat \<Rightarrow> (view \<times> bool) option" where
  "view_columns_draw env ops view line lineno =
     (case get_columns ops view line of
        None \<Rightarrow> Some (view, True)
      | Some cols \<Rightarrow> view_columns_draw_loop env view line lineno cols (columns ops) 0)"

section \<open>Redraw scheduler\<close>

text \<open>
  \<open>draw\<close> is the callback \<^verbatim>\<open>view->ops->draw\<close>; like every call that may draw text it
  returns \<open>None\<close> when it does not return. \<^verbatim>\<open>redraw_view_from\<close> and
  \<^verbatim>\<open>redraw_view\<close> recompute the column widths with functions of another file and
  are not part of this development.
\<close>

type_synonym draw_fn = "view \<Rightarrow> nat \<Rightarrow> nat \<Rightarrow> (view \<times> bool) option"

definition line_update :: "view \<Rightarrow> nat \<Rightarrow> (line \<Rightarrow> line) \<Rightarrow> view" where
  "line_update view i f = view\<lparr>v_line := (v_line view)[i := f (v_line view ! i)]\<rparr>"

definition draw_view_line :: "view_ops \<Rightarrow> draw_fn \<Rightarrow> view \<Rightarrow> nat \<Rightarrow> (view \<times> bool) option" where
  "draw_view_line ops draw view lineno =
     (let selected = (p_offset (v_pos view) + lineno = p_lineno (v_pos view))
      in if p_offset (v_pos view) + lineno \<ge> v_lines view then Some (view, False)
         else
           (let line = p_offset (v_pos view) + lineno;
                view1 = view\<lparr>v_win := v_win view @ [Wmove lineno 0]\<rparr>;
                view2 = (if l_cleareol (v_line view1 ! line)
                         then view1\<lparr>v_win := v_win view1 @ [Wclrtoeol]\<rparr> else view1);
                view3 = view2\<lparr>v_col := 0, v_curline := line, v_curtype := LINE_NONE\<rparr>;
                view4 = line_update view3 line
                          (\<lambda>l. l\<lparr>l_selected := False, l_dirty := False, l_cleareol := False\<rparr>);
                view5 = (if selected
                         then select ops
                                (line_update (set_view_attr view4 LINE_CURSOR) line
                                   (\<lambda>l. l\<lparr>l_selected := True\<rparr>)) line
                         else view4)
            in draw view5 line lineno))"

text \<open>
  The loop of \<^verbatim>\<open>redraw_view_dirty\<close> from row \<open>lineno\<close> on, with the local flag
  \<open>dirty\<close>; it returns the view and the flag.
\<close>

partial_function (option) redraw_view_dirty_loop ::
  "view_ops \<Rightarrow> draw_fn \<Rightarrow> view \<Rightarrow> bool \<Rightarrow> nat \<Rightarrow> (view \<times> bool) option" where
  "redraw_view_dirty_loop ops draw view dirty lineno =
     (if int lineno < v_height view then
        if p_offset (v_pos view) + lineno \<ge> v_lines view then Some (view, dirty)
        else if \<not> l_dirty (v_line view ! (p_offset (v_pos view) + lineno))
             then redraw_view_dirty_loop ops draw view dirty (lineno + 1)
             else (case draw_view_line ops draw view lineno of
                     None \<Rightarrow> None
                   | Some res \<Rightarrow>
                       if \<not> snd res then Some (fst res, True)
                       else redraw_view_dirty_loop ops draw (fst res) True (lineno + 1))
      else Some (view, dirty))"

declare redraw_view_dirty_loop.simps [code]


section \<open>What the window shows\<close>

text \<open>The cells a list of curses calls writes, and the rows and refreshes it names.\<close>

fun cells :: "wop list \<Rightarrow> chtype list" where
  "cells [] = []"
| "cells (Waddnstr s n # ws) = map of_char (take (nat n) s) @ cells ws"
| "cells (Waddch c # ws) = c # cells ws"
| "cells (w # ws) = cells ws"

fun moved_rows :: "wop list \<Rightarrow> nat list" where
  "moved_rows [] = []"
| "moved_rows (Wmove y x # ws) = y # moved_rows ws"
| "moved_rows (w # ws) = moved_rows ws"

definition refreshes :: "wop list \<Rightarrow> nat" where
  "refreshes ws = length (filter (\<lambda>w. w = Wnoutrefresh) ws)"

text \<open>What a call appended to the window.\<close>

definition written :: "view \<Rightarrow> view \<Rightarrow> wop list" where
  "written view view' = drop (length (v_win view)) (v_win view')"

text \<open>
  \<open>draws v v'\<close>: \<open>v'\<close> differs from \<open>v\<close> at most in the column cursor, the current
  attribute and the window, and the window only grew.
\<close>

definition draws :: "view \<Rightarrow> view \<Rightarrow> bool" where
  "draws v v' \<longleftrightarrow>
     v_width v' = v_width v \<and> v_height v' = v_height v \<and> v_pos v' = v_pos v \<and>
     v_curline v' = v_curline v \<and> v_line v' = v_line v \<and> v_digits v' = v_digits v \<and>
     v_columns_info v' = v_columns_info v \<and> (\<exists>ws. v_win v' = v_win v @ ws)"

section \<open>The bound of a row\<close>

text \<open>
  The cells between the cursor and the bound \<^verbatim>\<open>width + pos.col\<close>, as a number that is
  negative once the cursor has passed the bound; and the states in which the bound is a
  value of the cursor's type and the cursor has not passed it. In these states
  \<^verbatim>\<open>VIEW_MAX_LEN\<close> is the number of cells that are left.
\<close>

definition cells_left :: "view \<Rightarrow> int" where
  "cells_left view = v_width view + uint (p_col (v_pos view)) - uint (v_col view)"

definition within :: "view \<Rightarrow> bool" where
  "within view \<longleftrightarrow> 0 \<le> cells_left view \<and> v_width view + uint (p_col (v_pos view)) < 2 ^ 64"

section \<open>Contracts of the helpers\<close>

text \<open>
  The width engine (\<^verbatim>\<open>utf8_length\<close>, \<^verbatim>\<open>utf8_width_max\<close>) is consumed, not defined, by
  \<^verbatim>\<open>draw.c\<close>. What the layout needs of it:
  \<^item> the columns it counts are not negative and, with the cell of the truncation mark that
    \<^verbatim>\<open>draw_chars\<close> adds, stay within \<open>max_width\<close>;
  \<^item> of the buffer of twenty blanks it counts exactly \<open>n\<close> columns when \<open>n\<close> are asked for;
  \<^item> a measured width is not negative.
\<close>

definition width_engine_ok :: "env \<Rightarrow> bool" where
  "width_engine_ok env \<longleftrightarrow>
     (\<forall>string skip m reserve.
        0 < m \<longrightarrow>
        (case utf8_length env string skip m reserve (opt_tab_size env) of
           (len, s, col, trimmed) \<Rightarrow>
             0 \<le> col \<and> (if 0 < len \<and> trimmed \<and> reserve then col + 1 else col) \<le> m)) \<and>
     (\<forall>skip n.
        0 < n \<and> n \<le> 20 \<longrightarrow>
        (case utf8_length env space skip n False (opt_tab_size env) of
           (len, s, col, trimmed) \<Rightarrow> col = n)) \<and>
     (\<forall>text m. 0 \<le> utf8_width_max env text m)"

text \<open>Without horizontal scrolling the engine hands back the first \<open>n\<close> blanks themselves.\<close>

definition blank_bytes_ok :: "env \<Rightarrow> bool" where
  "blank_bytes_ok env \<longleftrightarrow>
     (\<forall>n. 0 < n \<and> n \<le> 20 \<longrightarrow>
        (case utf8_length env space 0 n False (opt_tab_size env) of
           (len, s, col, trimmed) \<Rightarrow> len = n \<and> s = space))"

text \<open>The output conversion is off, or it succeeds.\<close>

definition iconv_ok :: "env \<Rightarrow> bool" where
  "iconv_ok env \<longleftrightarrow> (opt_iconv_out env \<longrightarrow> (\<forall>s n. encoding_iconv env s n \<noteq> None))"

text \<open>
  \<open>text_cells env s k\<close>: \<^verbatim>\<open>string_expand\<close> takes the string \<open>s\<close> in one pass, and the
  expanded text counts exactly \<open>k\<close> display columns, untrimmed, wherever \<open>k\<close> columns are
  allowed.
\<close>

definition text_cells :: "env \<Rightarrow> string \<Rightarrow> int \<Rightarrow> bool" where
  "text_cells env s k \<longleftrightarrow>
     length s \<le> snd (string_expand env s (opt_tab_size env)) \<and>
     (\<forall>skip m.
        k \<le> m \<longrightarrow>
        (case utf8_length env (fst (string_expand env s (opt_tab_size env))) skip m True
                (opt_tab_size env) of
           (len, s', col, trimmed) \<Rightarrow> col = k \<and> \<not> trimmed))"

text \<open>
  The glyph tables of \<^verbatim>\<open>graph.c\<close>: a symbol's text is two cells wide, and one cell
  wide without its first byte (the form drawn for the first symbol of a row).
\<close>

definition glyph_ok :: "env \<Rightarrow> bool \<Rightarrow> graph_symbol \<Rightarrow> bool" where
  "glyph_ok env first symbol \<longleftrightarrow>
     text_cells env (drop (if first then 1 else 0) (graph_symbol_to_ascii env symbol))
       (if first then 1 else 2) \<and>
     text_cells env (drop (if first then 1 else 0) (graph_symbol_to_utf8 env symbol))
       (if first then 1 else 2)"

fun glyphs_ok :: "env \<Rightarrow> bool \<Rightarrow> graph_symbol list \<Rightarrow> bool" where
  "glyphs_ok env first [] = True"
| "glyphs_ok env first (symbol # symbols) =
     (glyph_ok env first symbol \<and> get_graph_color symbol \<noteq> None \<and> glyphs_ok env False symbols)"

text \<open>\<^verbatim>\<open>string_expand\<close> consumes at least one byte of a string that is not empty.\<close>

definition string_expand_ok :: "env \<Rightarrow> bool" where
  "string_expand_ok env \<longleftrightarrow>
     (\<forall>s. s \<noteq> [] \<longrightarrow> 0 < snd (string_expand env s (opt_tab_size env)))"

section \<open>A reference environment\<close>

text \<open>
  Modelled from the spec: the width engine of the spec's section 2 (given raw text, a skip
  offset and a column budget, it returns the bytes that fit, the display columns and whether
  it truncated), which \<^verbatim>\<open>draw.c\<close> calls as \<^verbatim>\<open>utf8_length\<close> and does not define. Every
  byte is one character one column wide; the skipped columns are counted; with \<open>reserve\<close>
  a truncated text leaves one column for the mark.
\<close>

definition ref_utf8_length :: "string \<Rightarrow> nat \<Rightarrow> int \<Rightarrow> bool \<Rightarrow> int \<Rightarrow> int \<times> string \<times> int \<times> bool" where
  "ref_utf8_length string skip max_width reserve tab_size =
     (let k = int (length string)
      in if k \<le> max_width
         then (k - int (min skip (length string)), drop skip string, k, False)
         else (let r = (if reserve \<and> 1 \<le> max_width then 1 else 0);
                   sk = min skip (nat max_width + 1)
               in (max_width - r - int sk, drop sk string, max_width - r, True)))"

text \<open>
  Modelled from the spec: tab expansion into a bounded scratch buffer
  (\<^verbatim>\<open>string_expand\<close> of \<^verbatim>\<open>tig/string.h\<close>); the text here has no tabs, so a pass copies up
  to 1023 bytes.
\<close>

definition ref_string_expand :: "string \<Rightarrow> int \<Rightarrow> string \<times> nat" where
  "ref_string_expand string tab_size = (take 1023 string, min 1023 (length string))"

text \<open>
  Modelled from the C standard: the conversion \<^verbatim>\<open>%<w>d\<close> of \<^verbatim>\<open>printf\<close>, which
  \<^verbatim>\<open>string_format\<close> applies to the format built by \<^verbatim>\<open>draw_lineno_custom\<close>. The decimal
  numeral is right-justified in a field of \<open>w\<close> characters and padded with blanks; the flag
  \<^verbatim>\<open>0\<close> that would pad with zeros is not part of the format.
\<close>

fun decimal :: "nat \<Rightarrow> string" where
  "decimal n =
     (if n < 10 then [char_of (of_char CHR ''0'' + n)]
      else decimal (n div 10) @ [char_of (of_char CHR ''0'' + n mod 10)])"

definition printf_d :: "nat \<Rightarrow> nat \<Rightarrow> string" where
  "printf_d w n = replicate (w - length (decimal n)) CHR '' '' @ decimal n"

definition ref_string_format :: "string \<Rightarrow> nat \<Rightarrow> string option" where
  "ref_string_format fmt n =
     (case fmt of
        [p, w, d] \<Rightarrow>
          if p = CHR ''%'' \<and> d = CHR ''d'' \<and> of_char CHR ''0'' < (of_char w :: nat)
             \<and> (of_char w :: nat) \<le> of_char CHR ''9''
          then Some (take 9 (printf_d (of_char w - of_char CHR ''0'') n))
          else None
      | _ \<Rightarrow> None)"

definition ref_env :: env where
  "ref_env =
     \<lparr>opt_tab_size = 8,
      opt_iconv_out = False,
      encoding_iconv = (\<lambda>s n. Some s),
      utf8_length = ref_utf8_length,
      utf8_width_max = (\<lambda>text m. if 0 \<le> m then min (int (length text)) m else int (length text)),
      utf8_width = (\<lambda>text. int (length text)),
      string_expand = ref_string_expand,
      string_format = ref_string_format,
      format_buffer = (\<lambda>fmt arg. (''['' @ arg @ '']'', int (length arg) + 2)),
      opt_show_date = DATE_DEFAULT,
      DATE_SHORT_WIDTH = 10,
      DATE_WIDTH = 16,
      mkdate = (\<lambda>t d. Some ''2014-01-01 00:00''),
      opt_show_author = AUTHOR_FULL,
      opt_author_width = 0,
      author_trim = (\<lambda>w. True),
      mkauthor = (\<lambda>a w m. case a of None \<Rightarrow> None | Some i \<Rightarrow> Some (ident_name i)),
      opt_show_id = True,
      opt_id_width = 7,
      opt_show_filename = FILENAME_AUTO,
      opt_show_filename_width = 0,
      S_ISDIR = (\<lambda>m. m div 4096 mod 16 = 4),
      opt_show_file_size = FILE_SIZE_DEFAULT,
      mkfilesize = (\<lambda>n f. Some (decimal n)),
      mkmode = (\<lambda>m. Some ''-rw-r--r--''),
      opt_line_graphics = GRAPHIC_DEFAULT,
      ACS_VLINE = 4194424,
      opt_show_line_numbers = True,
      opt_line_number_interval = 5,
      opt_show_refs = True,
      get_line_type_from_ref = (\<lambda>r. LINE_OTHER (ref_kind r)),
      graph_symbol_to_utf8 = (\<lambda>s. if gs_commit s then '' *'' else '' |''),
      graph_symbol_to_ascii = (\<lambda>s. if gs_commit s then '' *'' else '' |''),
      graph_symbol_to_chtype = (\<lambda>s. if gs_commit s then [32, 42] else [32, 124]),
      draw_commit_title = (\<lambda>view title n. (view, False))\<rparr>"

text \<open>The reference environment with an output conversion that fails on every text.\<close>

definition iconv_fail_env :: env where
  "iconv_fail_env = ref_env\<lparr>opt_iconv_out := True, encoding_iconv := (\<lambda>s n. None)\<rparr>"

definition plain_line :: "bool \<Rightarrow> line" where
  "plain_line d = \<lparr>l_type = LINE_DEFAULT, l_selected = False, l_dirty = d, l_cleareol = False\<rparr>"

text \<open>
  A view of the given width, five rows high, not scrolled, with one row for each of the
  given dirty flags.
\<close>

definition test_view :: "int \<Rightarrow> bool list \<Rightarrow> view" where
  "test_view w ds =
     \<lparr>v_width = w, v_height = 5,
      v_pos = \<lparr>p_offset = 0, p_col = 0, p_lineno = 0\<rparr>,
      v_col = 0, v_curline = 0, v_curtype = LINE_NONE,
      v_line = map plain_line ds,
      v_digits = 3, v_columns_info = [], v_win = []\<rparr>"

text \<open>
  A view three cells wide with one row, not scrolled; its three columns are configured
  3, 7 and 0 cells wide.
\<close>

definition narrow_view :: view where
  "narrow_view = (test_view 3 [False])\<lparr>v_columns_info := [3, 7, 0]\<rparr>"

text \<open>The cursor and the result of a call.\<close>

definition cursor_after :: "(view \<times> bool) option \<Rightarrow> (ulong \<times> bool) option" where
  "cursor_after res = map_option (\<lambda>r. (v_col (fst r), snd r)) res"

text \<open>A canvas of three symbols: a commit and two lanes.\<close>

definition test_canvas :: graph_canvas where
  "test_canvas =
     [\<lparr>gs_color = 0, gs_commit = True, gs_shape = 0\<rparr>,
      \<lparr>gs_color = 1, gs_commit = False, gs_shape = 0\<rparr>,
      \<lparr>gs_color = 6, gs_commit = False, gs_shape = 0\<rparr>]"

section \<open>Contracts of the row source\<close>

text \<open>The colour index of every lane of a canvas is within the palette (the assertion holds).\<close>

definition colours_ok :: "graph_canvas \<Rightarrow> bool" where
  "colours_ok canvas \<longleftrightarrow> list_all (\<lambda>symbol. get_graph_color symbol \<noteq> None) canvas"

definition columns_ok :: "view_ops \<Rightarrow> bool" where
  "columns_ok ops \<longleftrightarrow>
     (\<forall>view line cols.
        get_columns ops view line = Some cols \<longrightarrow>
        (case vc_graph cols of None \<Rightarrow> True | Some canvas \<Rightarrow> colours_ok canvas))"

text \<open>The interval of the line numbers is not zero when line numbers are shown.\<close>

definition interval_ok :: "env \<Rightarrow> bool" where
  "interval_ok env \<longleftrightarrow>
     (opt_show_line_numbers env \<longrightarrow> to_uint (opt_line_number_interval env) \<noteq> 0)"

text \<open>
  \<open>keeps v v'\<close>: what a callback of the row source may do during a redraw. It leaves the
  rows with their flags, the position and the height alone, and on the window it neither
  moves to another row nor refreshes.
\<close>

definition keeps :: "view \<Rightarrow> view \<Rightarrow> bool" where
  "keeps v v' \<longleftrightarrow>
     v_line v' = v_line v \<and> v_pos v' = v_pos v \<and> v_height v' = v_height v \<and>
     (\<exists>ws. v_win v' = v_win v @ ws \<and> moved_rows ws = [] \<and> refreshes ws = 0)"

definition select_ok :: "view_ops \<Rightarrow> bool" where
  "select_ok ops \<longleftrightarrow> (\<forall>v l. keeps v (select ops v l))"


text \<open>Row \<open>i\<close> as \<^verbatim>\<open>draw_view_line\<close> leaves it: flags cleared, selected if it is the cursor row.\<close>

definition repainted :: "view \<Rightarrow> nat \<Rightarrow> line" where
  "repainted view i =
     (v_line view ! i)\<lparr>l_selected := (i = p_lineno (v_pos view)), l_dirty := False,
                         l_cleareol := False\<rparr>"

text \<open>The flags of row \<open>i\<close> after a call, as (selected, dirty, cleareol).\<close>

definition row_flags :: "(view \<times> bool) option \<Rightarrow> nat \<Rightarrow> (bool \<times> bool \<times> bool) option" where
  "row_flags res i =
     (case res of
        None \<Rightarrow> None
      | Some r \<Rightarrow>
          Some (l_selected (v_line (fst r) ! i), l_dirty (v_line (fst r) ! i),
                l_cleareol (v_line (fst r) ! i)))"

text \<open>
  A row source whose \<^verbatim>\<open>get_columns\<close> fails on every row, and one that has values for
  every row; the selection hook does nothing.
\<close>

definition fail_ops :: view_ops where
  "fail_ops =
     \<lparr>get_columns = (\<lambda>view line. None), select = (\<lambda>view line. view),
      columns = [VIEW_COLUMN_LINE_NUMBER, VIEW_COLUMN_ID, VIEW_COLUMN_COMMIT_TITLE]\<rparr>"

definition test_columns :: view_columns where
  "test_columns =
     \<lparr>vc_author = None, vc_commit_title = Some ''Initial commit'', vc_date = None,
      vc_file_name = None, vc_file_size = None, vc_graph = Some test_canvas,
      vc_id = Some ''0123abc'', vc_mode = None, vc_ref = None, vc_refs = None,
      vc_text = []\<rparr>"

definition test_ops :: view_ops where
  "test_ops =
     \<lparr>get_columns = (\<lambda>view line. Some test_columns), select = (\<lambda>view line. view),
      columns = [VIEW_COLUMN_LINE_NUMBER, VIEW_COLUMN_ID, VIEW_COLUMN_COMMIT_TITLE]\<rparr>"

text \<open>The cells a call has added to the window of \<open>view\<close>.\<close>

definition cells_drawn :: "view \<Rightarrow> (view \<times> bool) option \<Rightarrow> chtype list option" where
  "cells_drawn view res =
     (case res of None \<Rightarrow> None | Some r \<Rightarrow> Some (cells (written view (fst r))))"

section \<open>What a dirty scan does\<close>










text \<open>Five rows of which rows 1 and 3 are dirty.\<close>

definition five_rows :: view where
  "five_rows = test_view 20 [False, True, False, True, False]"

section \<open>Properties\<close>

subsection \<open>Conversions between \<^verbatim>\<open>int\<close> and \<^verbatim>\<open>unsigned long\<close>\<close>

lemma int_of_ulong_stb: "int_of_ulong x = signed_take_bit 31 (uint x)"
  unfolding int_of_ulong_def
  by (simp add: sint_uint unsigned_ucast_eq signed_take_bit_take_bit)

lemma int_of_ulong_of_int: "int_of_ulong (word_of_int k) = signed_take_bit 31 k"
  by (simp add: int_of_ulong_stb uint_word_of_int_eq signed_take_bit_take_bit)

lemma int_of_ulong_small:
  "- (2 ^ 31) \<le> k \<Longrightarrow> k < 2 ^ 31 \<Longrightarrow> int_of_ulong (word_of_int k) = k"
  using signed_take_bit_int_eq_self [of 31 k] by (simp add: int_of_ulong_of_int)

lemma int_of_ulong_uint: "uint x < 2 ^ 31 \<Longrightarrow> int_of_ulong x = uint x"
proof -
  assume a: "uint x < 2 ^ 31"
  have "- (2 ^ 31) \<le> uint x"
    by (rule order_trans [of _ 0]) simp_all
  from signed_take_bit_int_eq_self [OF this a] show ?thesis
    by (simp add: int_of_ulong_stb)
qed


lemma stb_small: "0 \<le> k \<Longrightarrow> k < 2 ^ 31 \<Longrightarrow> signed_take_bit 31 k = (k::int)"
  using signed_take_bit_int_eq_self [of 31 k] by simp


lemma uint_sub_of_int:
  "0 \<le> n \<Longrightarrow> n \<le> uint (x::ulong) \<Longrightarrow> uint (x - word_of_int n) = uint x - n"
proof -
  assume a: "0 \<le> n" "n \<le> uint x"
  have "x - word_of_int n = word_of_int (uint x - n)" by simp
  moreover have "uint x < 2 ^ 64" using uint_bounded [of x] by simp
  ultimately show ?thesis using a
    by (simp only: uint_word_of_int_eq) (simp add: take_bit_int_eq_self)
qed

lemma uint_add_of_int:
  "0 \<le> n \<Longrightarrow> uint (x::ulong) + n < 2 ^ 64 \<Longrightarrow> uint (x + word_of_int n) = uint x + n"
proof -
  assume a: "0 \<le> n" "uint x + n < 2 ^ 64"
  have "x + word_of_int n = word_of_int (uint x + n)" by simp
  then show ?thesis using a
    by (simp only: uint_word_of_int_eq) (simp add: take_bit_int_eq_self)
qed

lemma ulong_le_0: "((x::ulong) \<le> 0) = (uint x = 0)"
  by (simp add: word_uint_eq_iff)


lemma min_of_int_le:
  "0 \<le> k \<Longrightarrow> k \<le> uint (x::ulong) \<Longrightarrow> min x (word_of_int k) = word_of_int k"
proof -
  assume a: "0 \<le> k" "k \<le> uint x"
  have "uint x < 2 ^ 64" using uint_bounded [of x] by simp
  with a have "uint (word_of_int k :: ulong) = k"
    by (simp add: uint_word_of_int_eq take_bit_int_eq_self)
  with a have "(word_of_int k :: ulong) \<le> x" by (simp add: word_le_def)
  then show ?thesis by (simp add: min_def)
qed

lemma min_of_int_gt:
  "uint (x::ulong) < k \<Longrightarrow> k < 2 ^ 64 \<Longrightarrow> min x (word_of_int k) = x"
proof -
  assume a: "uint x < k" "k < 2 ^ 64"
  have "0 \<le> uint x" by simp
  with a have "0 \<le> k" by linarith
  with a have "uint (word_of_int k :: ulong) = k"
    by (simp add: uint_word_of_int_eq take_bit_int_eq_self)
  with a have "x \<le> (word_of_int k :: ulong)" by (simp add: word_le_def)
  then show ?thesis by (simp add: min_def)
qed

lemma ulong_le_add:
  assumes "p \<le> (c::ulong)" "0 \<le> d" "uint c + d < 2 ^ 64"
  shows "p \<le> c + word_of_int d"
  using assms by (simp add: word_le_def uint_add_of_int)

lemma stb_cong:
  "signed_take_bit 31 a = signed_take_bit 31 b \<Longrightarrow>
   signed_take_bit 31 (k - (b - a)) = signed_take_bit 31 (k::int)"
  by (metis diff_self diff_zero signed_take_bit_diff)

text \<open>
  The budget of the trailing blanks of a field: the \<^verbatim>\<open>int col\<close> that
  \<^verbatim>\<open>draw_field\<close> keeps agrees with the cursor in its low 32 bits, which is all the
  conversion of the difference to \<^verbatim>\<open>int\<close> looks at.
\<close>

lemma pad_budget:
  assumes "int_of_ulong (word_of_int col) = int_of_ulong c"
  shows "int_of_ulong (word_of_int mx - ((c + word_of_int d) - word_of_int col))
           = signed_take_bit 31 (mx - d)"
proof -
  have "word_of_int mx - ((c + word_of_int d) - word_of_int col)
          = (word_of_int (mx - d - (uint c - col)) :: ulong)" by simp
  then have "int_of_ulong (word_of_int mx - ((c + word_of_int d) - word_of_int col))
          = signed_take_bit 31 (mx - d - (uint c - col))"
    by (simp only: int_of_ulong_of_int)
  also from assms have "signed_take_bit 31 col = signed_take_bit 31 (uint c)"
    by (simp only: int_of_ulong_of_int) (simp only: int_of_ulong_stb)
  then have "signed_take_bit 31 (mx - d - (uint c - col)) = signed_take_bit 31 (mx - d)"
    by (rule stb_cong)
  finally show ?thesis .
qed

lemma col_cong: "int_of_ulong (word_of_int (int_of_ulong c)) = int_of_ulong c"
  by (simp only: int_of_ulong_of_int) (simp add: int_of_ulong_stb)

lemma col_cong_pad:
  "int_of_ulong (word_of_int (int_of_ulong c + l)) = int_of_ulong (c + word_of_int l)"
proof -
  have "c + word_of_int l = word_of_int (uint c + l)" by simp
  then have "int_of_ulong (c + word_of_int l) = signed_take_bit 31 (uint c + l)"
    by (simp only: int_of_ulong_of_int)
  moreover have "int_of_ulong (word_of_int (int_of_ulong c + l))
      = signed_take_bit 31 (signed_take_bit 31 (uint c) + l)"
    by (simp only: int_of_ulong_of_int) (simp only: int_of_ulong_stb)
  moreover have "signed_take_bit 31 (signed_take_bit 31 (uint c) + l)
      = signed_take_bit 31 (uint c + l)"
    by (metis signed_take_bit_add signed_take_bit_signed_take_bit min.idem)
  ultimately show ?thesis by simp
qed

subsection \<open>Inside the bound\<close>

lemma VML_cells_left: "VIEW_MAX_LEN view = word_of_int (cells_left view)"
  by (simp add: VIEW_MAX_LEN_def cells_left_def)

lemma within_VML: "within view \<Longrightarrow> uint (VIEW_MAX_LEN view) = cells_left view"
proof -
  assume w: "within view"
  have "0 \<le> uint (v_col view)" by simp
  with w have "0 \<le> cells_left view" "cells_left view < 2 ^ 64"
    unfolding within_def cells_left_def by linarith+
  then show ?thesis
    by (simp add: VML_cells_left uint_word_of_int_eq take_bit_int_eq_self)
qed

subsection \<open>Views that only draw\<close>

declare draw_space_loop.simps [simp del]

lemma draws_refl [simp]: "draws v v"
  by (simp add: draws_def)

lemma draws_trans: "draws a b \<Longrightarrow> draws b c \<Longrightarrow> draws a c"
  unfolding draws_def by auto

lemma draws_VML: "draws v v' \<Longrightarrow> VIEW_MAX_LEN v' = VIEW_MAX_LEN v - (v_col v' - v_col v)"
  by (simp add: VIEW_MAX_LEN_def draws_def)

lemma draws_set_view_attr [simp]: "draws v (set_view_attr v t)"
  by (simp add: draws_def set_view_attr_def)

lemma v_col_set_view_attr [simp]: "v_col (set_view_attr v t) = v_col v"
  by (simp add: set_view_attr_def)

lemma draws_waddnstr [simp]: "draws v (waddnstr v s n)"
  by (simp add: draws_def waddnstr_def)

lemma draws_waddch [simp]: "draws v (waddch v c)"
  by (simp add: draws_def waddch_def)

lemma v_col_waddnstr [simp]: "v_col (waddnstr v s n) = v_col v"
  by (simp add: waddnstr_def)

lemma v_col_waddch [simp]: "v_col (waddch v c) = v_col v"
  by (simp add: waddch_def)

lemma draws_col_update [simp]: "draws v v' \<Longrightarrow> draws v (v'\<lparr>v_col := c\<rparr>)"
  by (simp add: draws_def)

lemma draws_win_update [simp]: "draws v v' \<Longrightarrow> draws v (v'\<lparr>v_win := v_win v' @ ws\<rparr>)"
  by (auto simp add: draws_def)

lemma draws_step_attr [simp]: "draws v v' \<Longrightarrow> draws v (set_view_attr v' t)"
  by (erule draws_trans) simp

lemma draws_step_waddnstr [simp]: "draws v v' \<Longrightarrow> draws v (waddnstr v' s n)"
  by (erule draws_trans) simp

lemma draws_step_waddch [simp]: "draws v v' \<Longrightarrow> draws v (waddch v' c)"
  by (erule draws_trans) simp

lemma VML_set_view_attr [simp]: "VIEW_MAX_LEN (set_view_attr v t) = VIEW_MAX_LEN v"
  by (simp add: VIEW_MAX_LEN_def set_view_attr_def)

lemma VML_waddnstr [simp]: "VIEW_MAX_LEN (waddnstr v s n) = VIEW_MAX_LEN v"
  by (simp add: VIEW_MAX_LEN_def waddnstr_def)

lemma VML_waddch [simp]: "VIEW_MAX_LEN (waddch v c) = VIEW_MAX_LEN v"
  by (simp add: VIEW_MAX_LEN_def waddch_def)

lemma VML_col_update [simp]: "VIEW_MAX_LEN (v\<lparr>v_col := c\<rparr>) = VIEW_MAX_LEN v - (c - v_col v)"
  by (simp add: VIEW_MAX_LEN_def)

text \<open>After an advance of \<open>d\<close> cells that the bound allows, \<open>d\<close> cells fewer are left.\<close>

lemma draws_advance:
  assumes "draws v v'" "v_col v' = v_col v + word_of_int d" "0 \<le> d" "d \<le> uint (VIEW_MAX_LEN v)"
  shows "uint (VIEW_MAX_LEN v') = uint (VIEW_MAX_LEN v) - d"
proof -
  from draws_VML [OF assms(1)] assms(2) have "VIEW_MAX_LEN v' = VIEW_MAX_LEN v - word_of_int d"
    by simp
  with uint_sub_of_int [OF assms(3,4)] show ?thesis by simp
qed


subsection \<open>The engine contract, unfolded\<close>

lemma engine_clip:
  assumes "width_engine_ok env" "0 < m"
    and "utf8_length env string skip m reserve (opt_tab_size env) = (len, s, col, trimmed)"
  shows "0 \<le> col \<and> (if 0 < len \<and> trimmed \<and> reserve then col + 1 else col) \<le> m"
proof -
  from assms(1) have a: "\<forall>string skip m reserve.
        0 < m \<longrightarrow>
        (case utf8_length env string skip m reserve (opt_tab_size env) of
           (len, s, col, trimmed) \<Rightarrow>
             0 \<le> col \<and> (if 0 < len \<and> trimmed \<and> reserve then col + 1 else col) \<le> m)"
    unfolding width_engine_ok_def by (rule conjunct1)
  from a [THEN spec [where x = string], THEN spec [where x = skip], THEN spec [where x = m],
      THEN spec [where x = reserve], THEN mp, OF assms(2)]
  show ?thesis by (simp only: assms(3) prod.case)
qed

lemma engine_blank:
  assumes "width_engine_ok env" "0 < n" "n \<le> 20"
    and "utf8_length env space skip n False (opt_tab_size env) = (len, s, col, trimmed)"
  shows "col = n"
proof -
  from assms(1) have a: "\<forall>skip n.
        0 < n \<and> n \<le> 20 \<longrightarrow>
        (case utf8_length env space skip n False (opt_tab_size env) of
           (len, s, col, trimmed) \<Rightarrow> col = n)"
    unfolding width_engine_ok_def by (rule conjunct1 [OF conjunct2])
  from assms(2,3) have b: "0 < n \<and> n \<le> 20" by simp
  from a [THEN spec [where x = skip], THEN spec [where x = n], THEN mp, OF b]
  show ?thesis by (simp only: assms(4) prod.case)
qed

lemma engine_width_max: "width_engine_ok env \<Longrightarrow> 0 \<le> utf8_width_max env text m"
  by (simp add: width_engine_ok_def)

subsection \<open>draw_chars\<close>

lemma draw_chars_draws: "draws view (fst (draw_chars env view type string max_len use_tilde))"
  by (simp add: draw_chars_def Let_def split: prod.splits option.splits)

lemma draw_chars_ret:
  "snd (draw_chars env view type string max_len use_tilde)
     = (VIEW_MAX_LEN (fst (draw_chars env view type string max_len use_tilde)) \<le> 0)"
  by (simp add: draw_chars_def Let_def split: prod.splits option.splits)

lemma draw_chars_ret_uint:
  "snd (draw_chars env view type string max_len use_tilde)
     = (uint (VIEW_MAX_LEN (fst (draw_chars env view type string max_len use_tilde))) = 0)"
  by (simp only: draw_chars_ret ulong_le_0)

lemma draw_chars_nonpos:
  "max_len \<le> 0 \<Longrightarrow>
   draw_chars env view type string max_len use_tilde = (view, VIEW_MAX_LEN view \<le> 0)"
  by (simp add: draw_chars_def)

text \<open>A call advances the cursor by a number of cells within its budget.\<close>

lemma draw_chars_advance:
  assumes "width_engine_ok env"
  shows "\<exists>d. 0 \<le> d \<and> d \<le> max 0 max_len \<and>
           v_col (fst (draw_chars env view type string max_len use_tilde))
             = v_col view + word_of_int d"
proof (cases "max_len \<le> 0")
  case True
  then have "v_col (fst (draw_chars env view type string max_len use_tilde))
      = v_col view + word_of_int 0" by (simp add: draw_chars_def)
  then show ?thesis by (intro exI [of _ 0]) simp
next
  case False
  then have m: "0 < max_len" by simp
  define skip where "skip = unat (if v_col view < p_col (v_pos view)
                                  then p_col (v_pos view) - v_col view else 0)"
  obtain len s col trimmed where
    u: "utf8_length env string skip max_len use_tilde (opt_tab_size env) = (len, s, col, trimmed)"
    using prod_cases4 by blast
  define d where "d = (if (if opt_iconv_out env then encoding_iconv env s len else Some s) = None
                       then 0
                       else if 0 < len \<and> trimmed \<and> use_tilde then col + 1 else col)"
  from engine_clip [OF assms m u] m have "0 \<le> d" "d \<le> max 0 max_len"
    by (auto simp add: d_def)
  moreover from m u have "v_col (fst (draw_chars env view type string max_len use_tilde))
      = v_col view + word_of_int d"
    unfolding draw_chars_def Let_def skip_def [symmetric] d_def
    by (auto split: option.splits)
  ultimately show ?thesis by blast
qed

lemma draw_chars_blank:
  assumes "width_engine_ok env" "iconv_ok env" "0 < n" "n \<le> 20"
  shows "v_col (fst (draw_chars env view type space n False)) = v_col view + word_of_int n"
proof -
  define skip where "skip = unat (if v_col view < p_col (v_pos view)
                                  then p_col (v_pos view) - v_col view else 0)"
  obtain len s col trimmed where
    u: "utf8_length env space skip n False (opt_tab_size env) = (len, s, col, trimmed)"
    using prod_cases4 by blast
  from engine_blank [OF assms(1,3,4) u] have c: "col = n" .
  from assms(2) have i: "(if opt_iconv_out env then encoding_iconv env s len else Some s) \<noteq> None"
    by (simp add: iconv_ok_def)
  then obtain s2 where s2: "(if opt_iconv_out env then encoding_iconv env s len else Some s) = Some s2"
    by blast
  from assms(3) u c s2 show ?thesis
    unfolding draw_chars_def Let_def skip_def [symmetric]
    by simp
qed

subsection \<open>draw_space\<close>

lemma draw_space_loop_nonpos:
  "spaces \<le> 0 \<Longrightarrow> draw_space_loop env view type spaces = (view, VIEW_MAX_LEN view \<le> 0)"
  by (subst draw_space_loop.simps) simp

lemma draw_space_loop_full:
  "0 < spaces \<Longrightarrow> snd (draw_chars env view type space (min spaces 20) False) \<Longrightarrow>
   draw_space_loop env view type spaces
     = (fst (draw_chars env view type space (min spaces 20) False), True)"
  by (subst draw_space_loop.simps) (simp add: Let_def)

lemma draw_space_loop_more:
  "0 < spaces \<Longrightarrow> \<not> snd (draw_chars env view type space (min spaces 20) False) \<Longrightarrow>
   draw_space_loop env view type spaces
     = draw_space_loop env (fst (draw_chars env view type space (min spaces 20) False)) type
         (spaces - min spaces 20)"
  by (subst draw_space_loop.simps) (simp add: Let_def)

lemma draw_space_loop_draws: "draws view (fst (draw_space_loop env view type spaces))"
proof (induction "nat spaces" arbitrary: view spaces rule: less_induct)
  case less
  show ?case
  proof (cases "0 < spaces")
    case False
    then show ?thesis by (simp add: draw_space_loop_nonpos)
  next
    case pos: True
    let ?res = "draw_chars env view type space (min spaces 20) False"
    show ?thesis
    proof (cases "snd ?res")
      case True
      with pos show ?thesis by (simp add: draw_space_loop_full draw_chars_draws)
    next
      case False
      from pos have "nat (spaces - min spaces 20) < nat spaces" by simp
      from less [OF this] have "draws (fst ?res) (fst (draw_space_loop env (fst ?res) type (spaces - min spaces 20)))" .
      with draw_chars_draws [of view env type space "min spaces 20" False] pos False
      show ?thesis by (simp add: draw_space_loop_more draws_trans)
    qed
  qed
qed

lemma draw_space_loop_ret:
  "snd (draw_space_loop env view type spaces)
     = (VIEW_MAX_LEN (fst (draw_space_loop env view type spaces)) \<le> 0)"
proof (induction "nat spaces" arbitrary: view spaces rule: less_induct)
  case less
  show ?case
  proof (cases "0 < spaces")
    case False
    then show ?thesis by (simp add: draw_space_loop_nonpos)
  next
    case pos: True
    let ?res = "draw_chars env view type space (min spaces 20) False"
    show ?thesis
    proof (cases "snd ?res")
      case True
      with pos draw_chars_ret [of env view type space "min spaces 20" False]
      show ?thesis by (simp add: draw_space_loop_full)
    next
      case False
      from pos have "nat (spaces - min spaces 20) < nat spaces" by simp
      from less [OF this, of "fst ?res"] pos False
      show ?thesis by (simp add: draw_space_loop_more)
    qed
  qed
qed

lemma draw_space_loop_exact:
  assumes "width_engine_ok env" "iconv_ok env"
  shows "spaces \<le> uint (VIEW_MAX_LEN view) \<Longrightarrow>
         v_col (fst (draw_space_loop env view type spaces))
           = v_col view + word_of_int (max 0 spaces)"
proof (induction "nat spaces" arbitrary: view spaces rule: less_induct)
  case less
  show ?case
  proof (cases "0 < spaces")
    case False
    then show ?thesis by (simp add: draw_space_loop_nonpos)
  next
    case pos: True
    let ?n = "min spaces 20"
    let ?res = "draw_chars env view type space ?n False"
    from pos have n: "0 < ?n" "?n \<le> 20" by simp_all
    note c = draw_chars_blank [OF assms n, of view type]
    from pos less.prems have nv: "0 \<le> ?n" "?n \<le> uint (VIEW_MAX_LEN view)" by linarith+
    note v = draws_advance [OF draw_chars_draws c nv]
    show ?thesis
    proof (cases "snd ?res")
      case True
      then have "uint (VIEW_MAX_LEN (fst ?res)) = 0"
        by (simp only: draw_chars_ret_uint)
      with v less.prems pos have "spaces = ?n" by linarith
      with pos have "max 0 spaces = ?n" by linarith
      with c have "v_col (fst ?res) = v_col view + word_of_int (max 0 spaces)" by simp
      with True pos show ?thesis by (simp add: draw_space_loop_full)
    next
      case False
      from pos have l: "nat (spaces - ?n) < nat spaces" by simp
      from v less.prems have "spaces - ?n \<le> uint (VIEW_MAX_LEN (fst ?res))" by linarith
      from less.hyps [OF l this]
      have "v_col (fst (draw_space_loop env (fst ?res) type (spaces - ?n)))
          = v_col (fst ?res) + word_of_int (max 0 (spaces - ?n))" .
      moreover from pos have "max 0 (spaces - ?n) = spaces - ?n" "max 0 spaces = ?n + (spaces - ?n)"
        by linarith+
      ultimately have "v_col (fst (draw_space_loop env (fst ?res) type (spaces - ?n)))
          = v_col view + word_of_int (max 0 spaces)"
        using c by (simp only: of_int_add add.assoc)
      with pos False show ?thesis by (simp add: draw_space_loop_more)
    qed
  qed
qed

lemma draw_space_draws: "draws view (fst (draw_space env view type mx spaces))"
  by (simp add: draw_space_def draw_space_loop_draws)

lemma draw_space_ret:
  "snd (draw_space env view type mx spaces)
     = (VIEW_MAX_LEN (fst (draw_space env view type mx spaces)) \<le> 0)"
  by (simp add: draw_space_def draw_space_loop_ret)

lemma draw_space_ret_uint:
  "snd (draw_space env view type mx spaces)
     = (uint (VIEW_MAX_LEN (fst (draw_space env view type mx spaces))) = 0)"
  by (simp only: draw_space_ret ulong_le_0)

lemma draw_space_exact:
  assumes "width_engine_ok env" "iconv_ok env" "min mx spaces \<le> uint (VIEW_MAX_LEN view)"
  shows "v_col (fst (draw_space env view type mx spaces))
           = v_col view + word_of_int (max 0 (min mx spaces))"
  unfolding draw_space_def by (rule draw_space_loop_exact [OF assms])

subsection \<open>draw_graphic\<close>

lemma draw_graphic_draws: "draws view (fst (draw_graphic env view type graphic sz separator))"
  by (simp add: draw_graphic_def Let_def)

lemma draw_graphic_ret:
  "snd (draw_graphic env view type graphic sz separator)
     = (VIEW_MAX_LEN (fst (draw_graphic env view type graphic sz separator)) \<le> 0)"
  by (simp add: draw_graphic_def Let_def)

lemma draw_graphic_col:
  "v_col (fst (draw_graphic env view type graphic sz separator))
     = v_col view
       + of_nat (if 0 \<le> int_of_ulong (VIEW_MAX_LEN view) \<and> int_of_ulong (VIEW_MAX_LEN view) < int sz
                 then nat (int_of_ulong (VIEW_MAX_LEN view)) else sz)
       + (if separator then 1 else 0)"
  by (simp add: draw_graphic_def Let_def waddch_def)

subsection \<open>draw_field\<close>

lemma draw_field_text_draws: "draws view (fst (draw_field_text env view type text mx col trim))"
  unfolding draw_field_text_def Let_def
  using draws_trans [OF draw_chars_draws draw_space_draws] draw_chars_draws
  by simp

lemma draw_field_draws: "draws view (fst (draw_field env view type text width align trim))"
  unfolding draw_field_def Let_def
  using draws_trans [OF draw_space_draws draw_field_text_draws]
  by (simp add: draw_space_draws draw_field_text_draws split: option.splits)

lemma draw_field_text_none:
  "mx \<le> 0 \<Longrightarrow> v_col (fst (draw_field_text env view type tx mx col trim)) = v_col view"
  by (simp add: draw_field_text_def Let_def draw_chars_nonpos draw_space_def
      draw_space_loop_nonpos)

lemma draw_field_text_exact:
  assumes e: "width_engine_ok env" and i: "iconv_ok env"
    and cong: "int_of_ulong (word_of_int col) = int_of_ulong (v_col view)"
    and m: "1 \<le> mx" "mx \<le> uint (VIEW_MAX_LEN view)" "mx < 2 ^ 31"
  shows "v_col (fst (draw_field_text env view type tx mx col trim)) = v_col view + word_of_int mx"
proof -
  let ?res = "draw_chars env view type tx (mx - 1) trim"
  from draw_chars_advance [OF e, of "mx - 1" view type tx trim] m obtain d where
    d: "0 \<le> d" "d \<le> mx - 1" and c: "v_col (fst ?res) = v_col view + word_of_int d"
    by auto
  from d m have dv: "d \<le> uint (VIEW_MAX_LEN view)" by linarith
  note v = draws_advance [OF draw_chars_draws c d(1) dv]
  from v d m have "uint (VIEW_MAX_LEN (fst ?res)) \<noteq> 0" by linarith
  then have nf: "\<not> snd ?res" by (simp only: draw_chars_ret_uint) simp
  from d m have "0 \<le> mx - d" "mx - d < 2 ^ 31" by linarith+
  from stb_small [OF this] pad_budget [OF cong, of mx d]
  have b: "int_of_ulong (word_of_int mx - (v_col (fst ?res) - word_of_int col)) = mx - d"
    by (simp only: c)
  let ?sp = "draw_space env (fst ?res) LINE_DEFAULT (mx - d) mx"
  from v d m have "min (mx - d) mx \<le> uint (VIEW_MAX_LEN (fst ?res))" by linarith
  from draw_space_exact [OF e i this, of LINE_DEFAULT]
  have "v_col (fst ?sp) = v_col (fst ?res) + word_of_int (max 0 (min (mx - d) mx))" .
  moreover from d m have "max 0 (min (mx - d) mx) = mx - d" by linarith
  ultimately have "v_col (fst ?sp) = v_col view + word_of_int mx"
    using c by simp
  with nf b show ?thesis
    unfolding draw_field_text_def Let_def by simp
qed

lemma draw_field_None:
  "draw_field env view type None width align trim
     = draw_space env view type
         (int_of_ulong (min (VIEW_MAX_LEN view) (word_of_int (width + 1))))
         (int_of_ulong (min (VIEW_MAX_LEN view) (word_of_int (width + 1))))"
  by (simp add: draw_field_def Let_def)

lemma draw_field_nopad:
  assumes "int_of_ulong (min (VIEW_MAX_LEN view) (word_of_int (width + 1))) = mx"
    and "\<not> (align = ALIGN_RIGHT \<and> 0 < mx - utf8_width_max env t mx - 1)"
  shows "draw_field env view type (Some t) width align trim
     = draw_field_text env view type t mx (int_of_ulong (v_col view)) trim"
  using assms by (auto simp add: draw_field_def Let_def)

lemma draw_field_pad:
  assumes "int_of_ulong (min (VIEW_MAX_LEN view) (word_of_int (width + 1))) = mx"
    and "leftpad = mx - utf8_width_max env t mx - 1"
    and "align = ALIGN_RIGHT" "0 < leftpad"
  shows "draw_field env view type (Some t) width align trim
     = (if snd (draw_space env view type leftpad leftpad)
        then (fst (draw_space env view type leftpad leftpad), True)
        else draw_field_text env (fst (draw_space env view type leftpad leftpad)) type t
               (mx - leftpad) (int_of_ulong (v_col view) + leftpad) trim)"
  using assms by (auto simp add: draw_field_def Let_def)

text \<open>
  With a working conversion a field advances the cursor by its whole span \<open>mx\<close>, the
  value that \<^verbatim>\<open>draw_field\<close> computes for \<^verbatim>\<open>max\<close>, when this is not more than
  \<^verbatim>\<open>VIEW_MAX_LEN\<close>.
\<close>

lemma draw_field_span:
  assumes e: "width_engine_ok env" and i: "iconv_ok env"
    and mx: "int_of_ulong (min (VIEW_MAX_LEN view) (word_of_int (width + 1))) = mx"
    and r: "0 \<le> mx" "mx \<le> uint (VIEW_MAX_LEN view)" "mx < 2 ^ 31"
  shows "v_col (fst (draw_field env view type tx width align trim)) = v_col view + word_of_int mx"
proof (cases tx)
  case None
  from r have "min mx mx \<le> uint (VIEW_MAX_LEN view)" by simp
  from draw_space_exact [OF e i this, of type] r
  have "v_col (fst (draw_space env view type mx mx)) = v_col view + word_of_int mx" by simp
  then show ?thesis unfolding None draw_field_None mx .
next
  case (Some t)
  define leftpad where "leftpad = mx - utf8_width_max env t mx - 1"
  from engine_width_max [OF e, of t mx] have lp: "leftpad \<le> mx - 1"
    by (simp add: leftpad_def)
  show ?thesis
  proof (cases "align = ALIGN_RIGHT \<and> 0 < leftpad")
    case False
    then have n: "\<not> (align = ALIGN_RIGHT \<and> 0 < mx - utf8_width_max env t mx - 1)"
      by (simp add: leftpad_def)
    show ?thesis
    proof (cases "mx = 0")
      case True
      then show ?thesis
        unfolding Some draw_field_nopad [OF mx n] by (simp add: draw_field_text_none)
    next
      case False
      with r have "1 \<le> mx" by simp
      from draw_field_text_exact [OF e i col_cong this r(2,3), of type t trim]
      show ?thesis unfolding Some draw_field_nopad [OF mx n] .
    qed
  next
    case True
    let ?res = "draw_space env view type leftpad leftpad"
    from True have t: "align = ALIGN_RIGHT" "0 < leftpad" by simp_all
    from lp r have "min leftpad leftpad \<le> uint (VIEW_MAX_LEN view)" by simp
    from draw_space_exact [OF e i this, of type] t
    have c: "v_col (fst ?res) = v_col view + word_of_int leftpad" by simp
    from t lp r have lv: "0 \<le> leftpad" "leftpad \<le> uint (VIEW_MAX_LEN view)" by linarith+
    note v = draws_advance [OF draw_space_draws c lv]
    from v lp r have m1: "1 \<le> mx - leftpad" "mx - leftpad \<le> uint (VIEW_MAX_LEN (fst ?res))"
      by linarith+
    from t r have m2: "mx - leftpad < 2 ^ 31" by linarith
    from v m1 have "uint (VIEW_MAX_LEN (fst ?res)) \<noteq> 0" by linarith
    then have nf: "\<not> snd ?res" by (simp only: draw_space_ret_uint) simp
    have cong: "int_of_ulong (word_of_int (int_of_ulong (v_col view) + leftpad))
        = int_of_ulong (v_col (fst ?res))"
      by (simp only: c col_cong_pad)
    from draw_field_text_exact [OF e i cong m1 m2, of type t trim] c
    have "v_col (fst (draw_field_text env (fst ?res) type t (mx - leftpad)
                        (int_of_ulong (v_col view) + leftpad) trim))
            = v_col view + word_of_int mx" by simp
    with nf show ?thesis
      unfolding Some draw_field_pad [OF mx leftpad_def t] by simp
  qed
qed

lemma draw_field_exact:
  assumes e: "width_engine_ok env" and i: "iconv_ok env"
    and w: "0 \<le> width" "width + 1 < 2 ^ 31" and room: "width + 1 \<le> uint (VIEW_MAX_LEN view)"
  shows "v_col (fst (draw_field env view type tx width align trim))
           = v_col view + word_of_int (width + 1)"
proof -
  from w have p: "0 \<le> width + 1" by simp
  from min_of_int_le [OF p room] int_of_ulong_small [of "width + 1"] w
  have mx: "int_of_ulong (min (VIEW_MAX_LEN view) (word_of_int (width + 1))) = width + 1"
    by simp
  from draw_field_span [OF e i mx p room w(2)] show ?thesis .
qed

lemma draw_field_short:
  assumes e: "width_engine_ok env" and i: "iconv_ok env"
    and w: "width + 1 < 2 ^ 31" and short: "uint (VIEW_MAX_LEN view) < width + 1"
  shows "v_col (fst (draw_field env view type tx width align trim))
           = v_col view + word_of_int (uint (VIEW_MAX_LEN view))"
proof -
  from w have "width + 1 < 2 ^ 64" by simp
  from min_of_int_gt [OF short this]
  have "min (VIEW_MAX_LEN view) (word_of_int (width + 1)) = VIEW_MAX_LEN view" .
  moreover from short w have s: "uint (VIEW_MAX_LEN view) < 2 ^ 31" by linarith
  ultimately
  have mx: "int_of_ulong (min (VIEW_MAX_LEN view) (word_of_int (width + 1)))
      = uint (VIEW_MAX_LEN view)"
    by (simp only: int_of_ulong_uint [OF s])
  have "0 \<le> uint (VIEW_MAX_LEN view)" by simp
  from draw_field_span [OF e i mx this order_refl s] show ?thesis .
qed

lemma draw_chars_ret0:
  "snd (draw_chars env view type string max_len use_tilde)
     = (VIEW_MAX_LEN (fst (draw_chars env view type string max_len use_tilde)) = 0)"
  using draw_chars_ret [of env view type string max_len use_tilde] by simp

lemma draw_space_ret0:
  "snd (draw_space env view type mx spaces)
     = (VIEW_MAX_LEN (fst (draw_space env view type mx spaces)) = 0)"
  using draw_space_ret [of env view type mx spaces] by simp

lemma draw_graphic_ret0:
  "snd (draw_graphic env view type graphic sz separator)
     = (VIEW_MAX_LEN (fst (draw_graphic env view type graphic sz separator)) = 0)"
  using draw_graphic_ret [of env view type graphic sz separator] by simp

lemma draw_field_text_ret0:
  "snd (draw_field_text env view type text mx col trim)
     = (VIEW_MAX_LEN (fst (draw_field_text env view type text mx col trim)) = 0)"
  unfolding draw_field_text_def Let_def
  using draw_chars_ret0 [of env view type _ "mx - 1" trim]
  by (simp add: draw_space_ret0 [symmetric])

lemma draw_field_ret0:
  "snd (draw_field env view type text width align trim)
     = (VIEW_MAX_LEN (fst (draw_field env view type text width align trim)) = 0)"
  unfolding draw_field_def Let_def
  by (simp add: draw_space_ret0 [symmetric] draw_field_text_ret0 [symmetric] split: option.splits)

subsection \<open>The reference environment meets the contracts\<close>

lemma ref_env_fields [simp]:
  "utf8_length ref_env = ref_utf8_length"
  "opt_tab_size ref_env = 8"
  "opt_iconv_out ref_env = False"
  "utf8_width_max ref_env = (\<lambda>text m. if 0 \<le> m then min (int (length text)) m else int (length text))"
  "string_expand ref_env = ref_string_expand"
  "string_format ref_env = ref_string_format"
  by (simp_all add: ref_env_def)

lemma iconv_fail_env_fields [simp]:
  "utf8_length iconv_fail_env = ref_utf8_length"
  "opt_tab_size iconv_fail_env = 8"
  "opt_iconv_out iconv_fail_env = True"
  "encoding_iconv iconv_fail_env = (\<lambda>s n. None)"
  "utf8_width_max iconv_fail_env = (\<lambda>text m. if 0 \<le> m then min (int (length text)) m else int (length text))"
  by (simp_all add: iconv_fail_env_def ref_env_def)

lemma ref_env_engine: "width_engine_ok ref_env"
  unfolding width_engine_ok_def
  by (auto simp add: ref_utf8_length_def Let_def space_def)

lemma ref_env_blank_bytes: "blank_bytes_ok ref_env"
  unfolding blank_bytes_ok_def
  by (auto simp add: ref_utf8_length_def Let_def space_def)

lemma ref_env_iconv: "iconv_ok ref_env"
  by (simp add: iconv_ok_def)

lemma test_view_fields [simp]:
  "v_width (test_view w ds) = w"
  "v_height (test_view w ds) = 5"
  "v_pos (test_view w ds) = \<lparr>p_offset = 0, p_col = 0, p_lineno = 0\<rparr>"
  "v_col (test_view w ds) = 0"
  "v_curline (test_view w ds) = 0"
  "v_curtype (test_view w ds) = LINE_NONE"
  "v_line (test_view w ds) = map plain_line ds"
  "v_digits (test_view w ds) = 3"
  "v_win (test_view w ds) = []"
  "VIEW_MAX_LEN (test_view w ds) = word_of_int w"
  by (simp_all add: test_view_def VIEW_MAX_LEN_def)

subsection \<open>What a call wrote\<close>

lemma cells_append [simp]: "cells (ws @ ws') = cells ws @ cells ws'"
  by (induction ws rule: cells.induct) simp_all

lemma written_self [simp]: "written v v = []"
  by (simp add: written_def)

lemma written_trans:
  assumes "draws a b" "draws b c"
  shows "written a c = written a b @ written b c"
proof -
  from assms(1) obtain ws1 where 1: "v_win b = v_win a @ ws1" by (auto simp: draws_def)
  from assms(2) obtain ws2 where 2: "v_win c = v_win b @ ws2" by (auto simp: draws_def)
  from 1 2 show ?thesis by (simp add: written_def)
qed

lemma written_set_view_attr [simp]: "cells (written v (set_view_attr v t)) = []"
  by (simp add: written_def set_view_attr_def)

lemma written_col_update [simp]: "written v (v'\<lparr>v_col := c\<rparr>) = written v v'"
  by (simp add: written_def)

lemma written_waddnstr:
  "draws v v' \<Longrightarrow> written v (waddnstr v' s n) = written v v' @ [Waddnstr s n]"
proof -
  assume "draws v v'"
  then obtain ws where "v_win v' = v_win v @ ws" by (auto simp: draws_def)
  then show ?thesis by (simp add: written_def waddnstr_def)
qed

lemma draw_chars_plain:
  assumes ni: "\<not> opt_iconv_out env" and m: "0 < max_len"
    and ns: "p_col (v_pos view) \<le> v_col view"
    and u: "utf8_length env string 0 max_len use_tilde (opt_tab_size env) = (len, s, col, trimmed)"
    and nt: "\<not> (trimmed \<and> use_tilde)"
  shows "v_col (fst (draw_chars env view type string max_len use_tilde))
           = v_col view + word_of_int col"
    and "cells (written view (fst (draw_chars env view type string max_len use_tilde)))
           = map of_char (take (nat len) s)"
proof -
  from ns have sk: "unat (if v_col view < p_col (v_pos view)
                          then p_col (v_pos view) - v_col view else 0) = 0"
    by (auto dest: leD)
  from ni m u nt show "v_col (fst (draw_chars env view type string max_len use_tilde))
      = v_col view + word_of_int col"
    unfolding draw_chars_def Let_def sk by auto
  from ni m u nt show "cells (written view (fst (draw_chars env view type string max_len use_tilde)))
           = map of_char (take (nat len) s)"
    unfolding draw_chars_def Let_def sk
    by (auto simp add: written_waddnstr)
qed

lemma draw_space_loop_small:
  assumes "0 < spaces" "spaces \<le> 20"
  shows "fst (draw_space_loop env view type spaces) = fst (draw_chars env view type space spaces False)"
proof (cases "snd (draw_chars env view type space (min spaces 20) False)")
  case True
  with assms show ?thesis by (simp add: draw_space_loop_full)
next
  case False
  with assms show ?thesis by (simp add: draw_space_loop_more draw_space_loop_nonpos)
qed

lemma engine_blank_bytes:
  assumes "blank_bytes_ok env" "0 < n" "n \<le> 20"
    and "utf8_length env space 0 n False (opt_tab_size env) = (len, s, col, trimmed)"
  shows "len = n \<and> s = space"
proof -
  from assms(1) have a: "\<forall>n. 0 < n \<and> n \<le> 20 \<longrightarrow>
        (case utf8_length env space 0 n False (opt_tab_size env) of
           (len, s, col, trimmed) \<Rightarrow> len = n \<and> s = space)"
    by (simp only: blank_bytes_ok_def)
  from assms(2,3) have b: "0 < n \<and> n \<le> 20" by simp
  from a [THEN spec [where x = n], THEN mp, OF b]
  show ?thesis by (simp only: assms(4) prod.case)
qed

lemma draw_space_blanks:
  assumes e: "width_engine_ok env" and bb: "blank_bytes_ok env" and ni: "\<not> opt_iconv_out env"
    and ns: "p_col (v_pos view) \<le> v_col view" and n: "0 < n" "n \<le> 20"
  shows "v_col (fst (draw_space env view type n n)) = v_col view + word_of_int n"
    and "cells (written view (fst (draw_space env view type n n)))
           = replicate (nat n) (of_char CHR '' '')"
proof -
  obtain len s col trimmed where
    u: "utf8_length env space 0 n False (opt_tab_size env) = (len, s, col, trimmed)"
    using prod_cases4 by blast
  from engine_blank [OF e n u] have c: "col = n" .
  from engine_blank_bytes [OF bb n u] have l: "len = n" "s = space" by simp_all
  have f: "fst (draw_space env view type n n) = fst (draw_chars env view type space n False)"
    by (simp add: draw_space_def draw_space_loop_small [OF n])
  from draw_chars_plain(1) [OF ni n(1) ns u] c
  show "v_col (fst (draw_space env view type n n)) = v_col view + word_of_int n"
    by (simp add: f)
  from n have "take (nat n) space = replicate (nat n) CHR '' ''"
    by (simp add: space_def min_def)
  with draw_chars_plain(2) [OF ni n(1) ns u] l
  show "cells (written view (fst (draw_space env view type n n))) = replicate (nat n) (of_char CHR '' '')"
    by (simp add: f)
qed

subsection \<open>draw_text\<close>

lemma string_expand_progress:
  assumes "string_expand_ok env" "string \<noteq> []"
  shows "length (drop (snd (string_expand env string (opt_tab_size env))) string) < length string"
proof -
  from assms have "0 < snd (string_expand env string (opt_tab_size env))"
    by (simp add: string_expand_ok_def)
  with assms(2) show ?thesis by simp
qed

lemma draw_text_expanded_returns:
  assumes "string_expand_ok env"
  shows "\<exists>view' full. draw_text_expanded env view type string max_len use_tilde = Some (view', full)"
proof (induction "length string" arbitrary: view string rule: less_induct)
  case less
  let ?pos = "snd (string_expand env string (opt_tab_size env))"
  let ?res = "draw_chars env view type (fst (string_expand env string (opt_tab_size env))) max_len use_tilde"
  show ?case
  proof (cases "snd ?res \<or> drop ?pos string = []")
    case True
    then show ?thesis
      by (subst draw_text_expanded.simps) (auto simp add: Let_def)
  next
    case False
    then have "string \<noteq> []" by auto
    from string_expand_progress [OF assms this]
    have "length (drop ?pos string) < length string" .
    from less [OF this, of "fst ?res"] False show ?thesis
      by (subst draw_text_expanded.simps) (simp add: Let_def)
  qed
qed

lemma draw_text_returns:
  "string_expand_ok env \<Longrightarrow> \<exists>view' full. draw_text env view type string = Some (view', full)"
  unfolding draw_text_def by (rule draw_text_expanded_returns)




subsection \<open>draw_graph\<close>


lemma text_cells_graphics [simp]:
  "text_cells (env\<lparr>opt_line_graphics := g\<rparr>) s k = text_cells env s k"
  by (simp add: text_cells_def)

lemma glyphs_ok_graphics [simp]:
  "glyphs_ok (env\<lparr>opt_line_graphics := g\<rparr>) first symbols = glyphs_ok env first symbols"
  by (induction symbols arbitrary: first) (simp_all add: glyph_ok_def)

lemma iconv_ok_graphics [simp]: "iconv_ok (env\<lparr>opt_line_graphics := g\<rparr>) = iconv_ok env"
  by (simp add: iconv_ok_def)

lemma ref_env_string_expand: "string_expand_ok ref_env"
  by (simp add: string_expand_ok_def ref_string_expand_def)



subsection \<open>view_columns_draw\<close>

lemma view_columns_draw_loop_true:
  "view_columns_draw_loop env view line lineno cols cs i = Some (view', full) \<Longrightarrow> full"
  by (induction cs arbitrary: view i) (auto split: option.splits if_splits)

lemma view_columns_draw_full:
  "view_columns_draw env ops view line lineno = Some (view', full) \<Longrightarrow> full"
  by (auto simp add: view_columns_draw_def split: option.splits dest: view_columns_draw_loop_true)

lemma draw_formatted_returns:
  "string_expand_ok env \<Longrightarrow> \<exists>view' full. draw_formatted env view type format arg = Some (view', full)"
  by (auto simp add: draw_formatted_def Let_def draw_text_returns)

lemma draw_refs_loop_returns:
  assumes "string_expand_ok env"
  shows "\<exists>view' full. draw_refs_loop env view refs = Some (view', full)"
proof (induction refs arbitrary: view)
  case Nil
  show ?case by auto
next
  case (Cons r refs)
  from draw_formatted_returns [OF assms, of view "get_line_type_from_ref env r" "''[%s]''" "ref_name r"]
  obtain v1 f1 where 1: "draw_formatted env view (get_line_type_from_ref env r) ''[%s]'' (ref_name r) = Some (v1, f1)"
    by blast
  from draw_text_returns [OF assms, of v1 LINE_DEFAULT "'' ''"]
  obtain v2 f2 where 2: "draw_text env v1 LINE_DEFAULT '' '' = Some (v2, f2)" by blast
  from Cons [of v2] 1 2 show ?case by auto
qed

lemma draw_refs_returns:
  "string_expand_ok env \<Longrightarrow> \<exists>view' full. draw_refs env view refs = Some (view', full)"
  by (auto simp add: draw_refs_def draw_refs_loop_returns split: option.splits)

lemma draw_graph_fn_returns:
  "string_expand_ok env \<Longrightarrow>
   \<exists>view' full. draw_graph_fn g env view symbol color first = Some (view', full)"
  by (cases g)
     (auto simp add: draw_graph_fn_def draw_graph_ascii_def draw_graph_utf8_def
        draw_graph_chtype_def draw_text_returns prod_eq_iff)

lemma draw_graph_loop_returns:
  assumes "string_expand_ok env"
  shows "list_all (\<lambda>symbol. get_graph_color symbol \<noteq> None) symbols \<Longrightarrow>
         \<exists>view' full. draw_graph_loop env view symbols first = Some (view', full)"
proof (induction symbols arbitrary: view first)
  case Nil
  from draw_text_returns [OF assms] show ?case by auto
next
  case (Cons symbol symbols)
  from Cons.prems obtain color where c: "get_graph_color symbol = Some color" by auto
  from draw_graph_fn_returns [OF assms, of "opt_line_graphics env" view symbol color first]
  obtain v1 f1 where 1: "draw_graph_fn (opt_line_graphics env) env view symbol color first = Some (v1, f1)"
    by blast
  from Cons.prems have "list_all (\<lambda>symbol. get_graph_color symbol \<noteq> None) symbols" by simp
  from Cons.IH [OF this, of v1 False] c 1 show ?case by auto
qed

lemma draw_commit_title_column_returns:
  assumes "string_expand_ok env"
    and "case vc_graph cols of None \<Rightarrow> True | Some canvas \<Rightarrow> colours_ok canvas"
  shows "\<exists>view' full. draw_commit_title_column env view cols = Some (view', full)"
proof -
  have "\<exists>v1 f1. (case vc_graph cols of None \<Rightarrow> Some (view, False)
                   | Some canvas \<Rightarrow> draw_graph env view canvas) = Some (v1, f1)"
    using assms(2) draw_graph_loop_returns [OF assms(1)]
    by (auto simp add: draw_graph_def colours_ok_def split: option.splits)
  then obtain v1 f1 where 1: "(case vc_graph cols of None \<Rightarrow> Some (view, False)
                   | Some canvas \<Rightarrow> draw_graph env view canvas) = Some (v1, f1)" by blast
  from draw_refs_returns [OF assms(1), of v1 "vc_refs cols"]
  obtain v2 f2 where 2: "draw_refs env v1 (vc_refs cols) = Some (v2, f2)" by blast
  from 1 2 show ?thesis
    unfolding draw_commit_title_column_def by (auto simp add: prod_eq_iff)
qed

lemma draw_lineno_returns:
  "interval_ok env \<Longrightarrow> \<exists>view' full. draw_lineno env view lineno = Some (view', full)"
  by (auto simp add: draw_lineno_def draw_lineno_custom_def interval_ok_def Let_def prod_eq_iff)

lemma view_column_draw_returns:
  assumes "string_expand_ok env" and "interval_ok env"
    and "case vc_graph cols of None \<Rightarrow> True | Some canvas \<Rightarrow> colours_ok canvas"
  shows "\<exists>view' full. view_column_draw env view line lineno cols column width = Some (view', full)"
proof (cases column)
  case VIEW_COLUMN_LINE_NUMBER
  with draw_lineno_returns [OF assms(2)] show ?thesis by (auto simp add: view_column_draw_def)
next
  case VIEW_COLUMN_COMMIT_TITLE
  with draw_commit_title_column_returns [OF assms(1,3)] show ?thesis
    by (auto simp add: view_column_draw_def)
next
  case VIEW_COLUMN_TEXT
  with draw_text_returns [OF assms(1)] show ?thesis by (auto simp add: view_column_draw_def)
qed (auto simp add: view_column_draw_def Let_def prod_eq_iff)

lemma view_columns_draw_loop_returns:
  assumes "string_expand_ok env" and "interval_ok env"
    and "case vc_graph cols of None \<Rightarrow> True | Some canvas \<Rightarrow> colours_ok canvas"
  shows "\<exists>view'. view_columns_draw_loop env view line lineno cols cs i = Some (view', True)"
proof (induction cs arbitrary: view i)
  case Nil
  show ?case by auto
next
  case (Cons column cs)
  from view_column_draw_returns [OF assms, of view line lineno column "v_columns_info view ! i"]
  obtain v1 f1 where 1: "view_column_draw env view line lineno cols column (v_columns_info view ! i) = Some (v1, f1)"
    by blast
  from Cons [of v1 "i + 1"] 1 show ?case by auto
qed

lemma view_columns_draw_returns:
  assumes "string_expand_ok env" and "interval_ok env" and "columns_ok ops"
  shows "\<exists>view'. view_columns_draw env ops view line lineno = Some (view', True)"
proof (cases "get_columns ops view line")
  case None
  then show ?thesis by (auto simp add: view_columns_draw_def)
next
  case (Some cols)
  with assms(3) have "case vc_graph cols of None \<Rightarrow> True | Some canvas \<Rightarrow> colours_ok canvas"
    unfolding columns_ok_def by blast
  from view_columns_draw_loop_returns [OF assms(1,2) this] Some show ?thesis
    by (auto simp add: view_columns_draw_def)
qed

subsection \<open>draw_view_line\<close>

lemma moved_rows_append [simp]: "moved_rows (ws @ ws') = moved_rows ws @ moved_rows ws'"
  by (induction ws rule: moved_rows.induct) simp_all

lemma refreshes_append [simp]: "refreshes (ws @ ws') = refreshes ws + refreshes ws'"
  by (simp add: refreshes_def)

lemma written_append: "v_win v' = v_win v @ ws \<Longrightarrow> written v v' = ws"
  by (simp add: written_def)

lemma keeps_refl [simp]: "keeps v v"
  by (simp add: keeps_def refreshes_def)

lemma line_flags_order:
  "l\<lparr>l_dirty := a, l_cleareol := b, l_selected := c\<rparr>
     = l\<lparr>l_selected := c, l_dirty := a, l_cleareol := b\<rparr>"
  by (rule line.equality) simp_all

lemma draw_view_line_callback:
  assumes r: "p_offset (v_pos view) + lineno < v_lines view" and s: "select_ok ops"
  shows "\<exists>view5 ws.
           draw_view_line ops draw view lineno = draw view5 (p_offset (v_pos view) + lineno) lineno \<and>
           v_line view5 = (v_line view)[p_offset (v_pos view) + lineno
                                          := repainted view (p_offset (v_pos view) + lineno)] \<and>
           v_pos view5 = v_pos view \<and> v_height view5 = v_height view \<and>
           v_win view5 = v_win view @ Wmove lineno 0 # ws \<and>
           moved_rows ws = [] \<and> refreshes ws = 0 \<and>
           ((\<forall>v l. cells (written v (select ops v l)) = []) \<longrightarrow> cells ws = [])"
proof -
  define line where "line = p_offset (v_pos view) + lineno"
  define clr where "clr = (if l_cleareol (v_line view ! line) then [Wclrtoeol] else [])"
  define view4 where "view4 = view\<lparr>v_win := v_win view @ Wmove lineno 0 # clr,
     v_col := 0, v_curline := line, v_curtype := LINE_NONE,
     v_line := (v_line view)[line := (v_line view ! line)\<lparr>l_selected := False, l_dirty := False, l_cleareol := False\<rparr>]\<rparr>"
  from r have r': "line < length (v_line view)" by (simp add: v_lines_def line_def)
  have q: "moved_rows clr = []" "refreshes clr = 0" "cells clr = []"
    by (simp_all add: clr_def refreshes_def)
  show ?thesis
  proof (cases "line = p_lineno (v_pos view)")
    case False
    have "draw_view_line ops draw view lineno = draw view4 line lineno"
      using r False
      by (simp add: draw_view_line_def Let_def line_def [symmetric] view4_def clr_def line_update_def)
    moreover have "v_line view4 = (v_line view)[line := repainted view line]"
      using False by (simp add: view4_def repainted_def)
    moreover have "v_pos view4 = v_pos view" "v_height view4 = v_height view"
      "v_win view4 = v_win view @ Wmove lineno 0 # clr"
      by (simp_all add: view4_def)
    ultimately show ?thesis using q unfolding line_def [symmetric] by blast
  next
    case True
    define attr where "attr = (if \<not> l_selected (v_line view4 ! v_curline view4) \<and> v_curtype view4 \<noteq> LINE_CURSOR
       then [Wattrset LINE_CURSOR, Wchgat LINE_CURSOR] else [])"
    define view5 where "view5 = line_update (set_view_attr view4 LINE_CURSOR) line (\<lambda>l. l\<lparr>l_selected := True\<rparr>)"
    have e: "draw_view_line ops draw view lineno = draw (select ops view5 line) line lineno"
      using r True
      by (simp add: draw_view_line_def Let_def line_def [symmetric] view4_def view5_def clr_def line_update_def)
    have l5: "v_line view5 = (v_line view)[line := repainted view line]"
      using True r' by (simp add: view5_def view4_def line_update_def set_view_attr_def repainted_def
          line_flags_order)
    have p5: "v_pos view5 = v_pos view" "v_height view5 = v_height view"
      by (simp_all add: view5_def view4_def line_update_def set_view_attr_def)
    have w5: "v_win view5 = v_win view @ Wmove lineno 0 # clr @ attr"
      by (simp add: view5_def view4_def [symmetric] line_update_def set_view_attr_def attr_def)
        (simp add: view4_def)
    have qa: "moved_rows attr = []" "refreshes attr = 0" "cells attr = []"
      by (simp_all add: attr_def refreshes_def)
    from s have k: "keeps view5 (select ops view5 line)" by (simp add: select_ok_def)
    then obtain ws where ws: "v_win (select ops view5 line) = v_win view5 @ ws"
      "moved_rows ws = []" "refreshes ws = 0" by (auto simp add: keeps_def)
    from written_append [OF ws(1)]
    have c: "(\<forall>v l. cells (written v (select ops v l)) = []) \<longrightarrow> cells ws = []" by metis
    from k l5 p5 have "v_line (select ops view5 line) = (v_line view)[line := repainted view line]"
      "v_pos (select ops view5 line) = v_pos view" "v_height (select ops view5 line) = v_height view"
      by (simp_all add: keeps_def)
    moreover from ws w5 have "v_win (select ops view5 line) = v_win view @ Wmove lineno 0 # (clr @ attr @ ws)"
      by simp
    moreover from q qa ws c have "moved_rows (clr @ attr @ ws) = []" "refreshes (clr @ attr @ ws) = 0"
      "(\<forall>v l. cells (written v (select ops v l)) = []) \<longrightarrow> cells (clr @ attr @ ws) = []"
      by simp_all
    ultimately show ?thesis using e unfolding line_def [symmetric] by blast
  qed
qed

lemma draw_view_line_full:
  assumes "p_offset (v_pos view) + lineno < v_lines view"
    and "draw_view_line ops (view_columns_draw env ops) view lineno = Some (view', full)"
  shows full
  using assms
  by (auto simp add: draw_view_line_def Let_def dest: view_columns_draw_full split: if_splits)

lemma redraw_view_dirty_loop_clean:
  assumes "int lineno < v_height view" "p_offset (v_pos view) + lineno < v_lines view"
    and "\<not> l_dirty (v_line view ! (p_offset (v_pos view) + lineno))"
  shows "redraw_view_dirty_loop ops draw view dirty lineno
           = redraw_view_dirty_loop ops draw view dirty (lineno + 1)"
  using assms by (subst redraw_view_dirty_loop.simps) simp

lemma fail_ops_select: "select_ok fail_ops"
  by (simp add: select_ok_def fail_ops_def)

lemma test_ops_columns: "columns_ok test_ops"
  by (simp add: columns_ok_def test_ops_def test_columns_def colours_ok_def test_canvas_def
      get_graph_color_def graph_colors_def)

lemma ref_env_interval: "interval_ok ref_env"
  by (simp add: interval_ok_def ref_env_def to_uint_def)

subsection \<open>Line numbers\<close>

declare decimal.simps [simp del]

lemma decimal_1: "decimal 1 = ''1''"
  by (subst decimal.simps) (simp add: char_of_def bit_Suc_0_iff)

lemma decimal_Suc_0: "decimal (Suc 0) = ''1''"
  using decimal_1 by simp

lemma decimal_15: "decimal 15 = ''15''"
  by (subst decimal.simps, subst decimal.simps) (simp add: char_of_def bit_Suc_0_iff)

lemma char_of_51: "char_of (51::nat) = CHR ''3''"
  by (simp add: char_of_def bit_Suc_0_iff)

lemma decimal_length_pos: "0 < length (decimal n)"
  by (subst decimal.simps) simp

lemma decimal_length:
  "n < 10 ^ k \<Longrightarrow> 0 < k \<Longrightarrow> length (decimal n) \<le> k"
proof (induction n arbitrary: k rule: decimal.induct)
  case (1 n)
  show ?case
  proof (cases "n < 10")
    case True
    with 1(3) show ?thesis by (subst decimal.simps) simp
  next
    case False
    with 1(2) have "1 < k" by (cases "k = 1") (use 1(3) in auto)
    then obtain j where k: "k = Suc j" "0 < j" by (cases k) auto
    with 1(2) have "n div 10 < 10 ^ j" by (simp add: less_mult_imp_div_less mult.commute)
    from 1(1) [OF False this k(2)] k False show ?thesis
      by (subst decimal.simps) simp
  qed
qed

lemma printf_d_length_9:
  assumes "n < 10 ^ 9" "w \<le> 9"
  shows "take 9 (printf_d w n) = printf_d w n"
proof -
  from decimal_length [OF assms(1)] have "length (decimal n) \<le> 9" by simp
  with assms(2) have "length (printf_d w n) \<le> 9" by (simp add: printf_d_def)
  then show ?thesis by simp
qed

lemma lineno_fmt_width:
  "lineno_fmt view
     = [CHR ''%'', char_of (48 + (if v_digits view \<le> 9 then max 3 (v_digits view) else 1)),
        CHR ''d'']"
  by (simp add: lineno_fmt_def digits3_def max_def)

lemma digit_char: "k \<le> 9 \<Longrightarrow> of_char (char_of (48 + k :: nat)) = (48 + k :: nat)"
  by (simp add: of_char_of)

lemma ref_string_format_lineno:
  assumes "n < 10 ^ 9"
  shows "ref_string_format (lineno_fmt view) n
     = Some (if v_digits view \<le> 9
             then replicate (max 3 (v_digits view) - length (decimal n)) CHR '' '' @ decimal n
             else decimal n)"
proof -
  define k where "k = (if v_digits view \<le> 9 then max 3 (v_digits view) else 1)"
  have k: "0 < k" "k \<le> 9" by (auto simp add: k_def max_def)
  have "ref_string_format (lineno_fmt view) n = Some (take 9 (printf_d k n))"
    unfolding lineno_fmt_width k_def [symmetric] ref_string_format_def
    using k by (simp add: digit_char)
  with printf_d_length_9 [OF assms k(2)]
  have "ref_string_format (lineno_fmt view) n = Some (printf_d k n)" by simp
  moreover have "printf_d 1 n = decimal n"
  proof -
    from decimal_length_pos [of n] have "1 - length (decimal n) = 0" by linarith
    then show ?thesis by (simp add: printf_d_def)
  qed
  ultimately show ?thesis by (simp add: k_def printf_d_def)
qed

lemma draw_lineno_custom_numbered:
  assumes "lineno = 1 \<or> (to_uint interval \<noteq> 0 \<and> lineno mod to_uint interval = 0)"
    and "string_format env (lineno_fmt view) lineno = Some t"
  shows "draw_lineno_custom env view lineno True interval
     = Some (draw_graphic env
          (fst (draw_chars env view LINE_LINE_NUMBER t
                  (int_of_ulong (min (VIEW_MAX_LEN view) (word_of_int (int (digits3 view)))))
                  True))
          LINE_DEFAULT
          [if opt_line_graphics env \<noteq> GRAPHIC_ASCII then ACS_VLINE env else of_char CHR ''|'']
          1 True)"
  using assms by (auto simp add: draw_lineno_custom_def Let_def)

lemma draw_graphic_cells:
  "cells (written view (fst (draw_graphic env view type graphic sz separator)))
     = (let skip = (if p_col (v_pos view) > v_col view
                    then p_col (v_pos view) - v_col view else 0);
            mx = int_of_ulong (VIEW_MAX_LEN view);
            sz1 = (if 0 \<le> mx \<and> mx < int sz then nat mx else sz)
        in (if 0 \<le> int_of_ulong skip then drop (nat (int_of_ulong skip)) (take sz1 graphic)
            else [])
           @ (if separator \<and> (mx < 0 \<or> int sz1 < mx) \<and> unat skip \<le> sz1 then [32] else []))"
proof -
  have c: "\<And>cs. cells (map Waddch cs) = cs"
  proof -
    fix cs :: "chtype list" show "cells (map Waddch cs) = cs" by (induction cs) simp_all
  qed
  show ?thesis
    by (simp add: draw_graphic_def Let_def waddch_def written_def set_view_attr_def c)
qed

lemma ref_env_more_fields [simp]:
  "ACS_VLINE ref_env = 4194424"
  "opt_line_graphics ref_env = GRAPHIC_DEFAULT"
  by (simp_all add: ref_env_def)

subsection \<open>The dirty scan\<close>


















lemma five_rows_fields [simp]:
  "v_pos five_rows = \<lparr>p_offset = 0, p_col = 0, p_lineno = 0\<rparr>"
  "v_line five_rows = map plain_line [False, True, False, True, False]"
  "v_win five_rows = []"
  by (simp_all add: five_rows_def)


subsection \<open>A row in a narrow view\<close>

lemma narrow_view_fields [simp]:
  "v_width narrow_view = 3"
  "v_pos narrow_view = \<lparr>p_offset = 0, p_col = 0, p_lineno = 0\<rparr>"
  "v_col narrow_view = 0"
  "v_line narrow_view = [plain_line False]"
  "v_digits narrow_view = 3"
  "v_columns_info narrow_view = [3, 7, 0]"
  "VIEW_MAX_LEN narrow_view = 3"
  by (simp_all add: narrow_view_def VIEW_MAX_LEN_def test_view_def)

lemma narrow_VML: "draws narrow_view v \<Longrightarrow> VIEW_MAX_LEN v = 3 - v_col v"
  using draws_VML [of narrow_view v] by simp

lemma ref_env_row_fields [simp]:
  "opt_show_line_numbers ref_env = True"
  "opt_line_number_interval ref_env = 5"
  "opt_show_id ref_env = True"
  "draw_commit_title ref_env = (\<lambda>view title n. (view, False))"
  "graph_symbol_to_chtype ref_env = (\<lambda>s. if gs_commit s then [32, 42] else [32, 124])"
  by (simp_all add: ref_env_def)

text \<open>
  The line number column: three cells of number fill the view, and the separator is
  counted all the same.
\<close>

lemma narrow_lineno:
  "\<exists>v1. draw_lineno ref_env narrow_view 0 = Some (v1, False) \<and> v_col v1 = 4 \<and>
         draws narrow_view v1"
proof -
  let ?v = "narrow_view"
  let ?c = "draw_chars ref_env ?v LINE_LINE_NUMBER ''  1'' 3 True"
  let ?g = "draw_graphic ref_env (fst ?c) LINE_DEFAULT [4194424] 1 True"
  have s: "string_format ref_env (lineno_fmt ?v) 1 = Some ''  1''"
    using ref_string_format_lineno [of 1 ?v]
    by (simp add: decimal_Suc_0 numeral_2_eq_2)
  have "draw_lineno_custom ref_env ?v 1 True 5 = Some ?g"
    using draw_lineno_custom_numbered [of 1 5 ref_env ?v "''  1''"] s
    by (simp add: digits3_def int_of_ulong_def)
  then have l: "draw_lineno ref_env ?v 0 = Some ?g"
    by (simp add: draw_lineno_def)
  have u: "utf8_length ref_env ''  1'' 0 3 True (opt_tab_size ref_env) = (3, ''  1'', 3, False)"
    by (simp add: ref_utf8_length_def)
  have nt: "\<not> (False \<and> True)" by simp
  have ni: "\<not> opt_iconv_out ref_env" by simp
  have ns: "p_col (v_pos ?v) \<le> v_col ?v" by simp
  from draw_chars_plain(1) [OF ni _ ns u nt, of LINE_LINE_NUMBER]
  have c1: "v_col (fst ?c) = 3" by simp
  have d1: "draws ?v (fst ?c)" by (rule draw_chars_draws)
  have d2: "draws (fst ?c) (fst ?g)" by (rule draw_graphic_draws)
  note d = draws_trans [OF d1 d2]
  from narrow_VML [OF d1] c1 have m: "VIEW_MAX_LEN (fst ?c) = 0" by simp
  have c2: "v_col (fst ?g) = 4"
    by (simp add: draw_graphic_col m c1 int_of_ulong_def)
  from narrow_VML [OF d] c2 have "VIEW_MAX_LEN (fst ?g) \<noteq> 0" by simp
  then have "\<not> snd ?g" by (simp only: draw_graphic_ret0) simp
  then have "?g = (fst ?g, False)" by (simp add: prod_eq_iff)
  with l have "draw_lineno ref_env ?v 0 = Some (fst ?g, False)" by simp
  with c2 d show ?thesis by blast
qed

text \<open>The id column after it: the whole field of eight cells is drawn past the bound.\<close>

lemma narrow_id:
  assumes "draws narrow_view v1" "v_col v1 = 4"
  shows "\<exists>v2. view_column_draw ref_env v1 0 0 test_columns VIEW_COLUMN_ID 7 = Some (v2, False) \<and>
           v_col v2 = 12 \<and> draws narrow_view v2"
proof -
  let ?f = "draw_field ref_env v1 LINE_ID (Some ''0123abc'') 7 ALIGN_LEFT False"
  from narrow_VML [OF assms(1)] assms(2) have m: "VIEW_MAX_LEN v1 = - 1" by simp
  have "(8::ulong) \<le> VIEW_MAX_LEN v1" unfolding m by simp
  then have room: "7 + 1 \<le> uint (VIEW_MAX_LEN v1)" unfolding word_le_def by simp
  from draw_field_exact [OF ref_env_engine ref_env_iconv _ _ room, of LINE_ID "Some ''0123abc''"
      ALIGN_LEFT False] assms(2)
  have c: "v_col (fst ?f) = 12" by simp
  have "draws v1 (fst ?f)" by (rule draw_field_draws)
  with assms(1) have d: "draws narrow_view (fst ?f)" by (rule draws_trans)
  from narrow_VML [OF d] c have "VIEW_MAX_LEN (fst ?f) \<noteq> 0" by simp
  then have "\<not> snd ?f" by (simp only: draw_field_ret0) simp
  then have "?f = (fst ?f, False)" by (simp add: prod_eq_iff)
  then have "view_column_draw ref_env v1 0 0 test_columns VIEW_COLUMN_ID 7 = Some (fst ?f, False)"
    by (simp add: view_column_draw_def draw_id_custom_def test_columns_def)
  with c d show ?thesis by blast
qed

text \<open>A graph cell drawn past the bound: \<^verbatim>\<open>max\<close> is negative and nothing is clipped.\<close>

lemma narrow_graphic:
  assumes "draws narrow_view v" "v_col v = c" "int_of_ulong (3 - c) < 0" "3 - (c + of_nat sz) \<noteq> 0"
  shows "\<exists>v'. draw_graphic ref_env v color graphic sz False = (v', False) \<and>
           v_col v' = c + of_nat sz \<and> draws narrow_view v'"
proof -
  let ?g = "draw_graphic ref_env v color graphic sz False"
  from narrow_VML [OF assms(1)] assms(2) have m: "VIEW_MAX_LEN v = 3 - c" by simp
  from assms(3) have c: "v_col (fst ?g) = c + of_nat sz"
    by (simp add: draw_graphic_col m assms(2))
  from assms(1) draw_graphic_draws have d: "draws narrow_view (fst ?g)" by (rule draws_trans)
  from narrow_VML [OF d] c assms(4) have "VIEW_MAX_LEN (fst ?g) \<noteq> 0" by simp
  then have "\<not> snd ?g" by (simp only: draw_graphic_ret0) simp
  then have "?g = (fst ?g, False)" by (simp add: prod_eq_iff)
  with c d show ?thesis by blast
qed

text \<open>A blank drawn past the bound: the budget is negative and nothing is drawn.\<close>

lemma narrow_blank:
  assumes "draws narrow_view v" "v_col v = 17"
  shows "draw_text ref_env v LINE_DEFAULT '' '' = Some (v, False)"
proof -
  from narrow_VML [OF assms(1)] assms(2) have m: "VIEW_MAX_LEN v = - 14" by simp
  show ?thesis
    unfolding draw_text_def
    by (subst draw_text_expanded.simps)
       (simp add: Let_def ref_string_expand_def m int_of_ulong_def draw_chars_nonpos)
qed

text \<open>The commit title column: the graph is drawn whole, its trailing blank is not.\<close>

lemma narrow_title:
  assumes "draws narrow_view v2" "v_col v2 = 12"
  shows "\<exists>v3. draw_commit_title_column ref_env v2 test_columns = Some (v3, False) \<and>
           v_col v3 = 17"
proof -
  from narrow_graphic [OF assms, of "Suc 0" LINE_GRAPH_COMMIT "[42]"] obtain va where
    1: "draw_graphic ref_env v2 LINE_GRAPH_COMMIT [42] (Suc 0) False = (va, False)"
      "v_col va = 13" "draws narrow_view va"
    by (auto simp add: int_of_ulong_def)
  from narrow_graphic [OF 1(3,2), of 2 LINE_PALETTE_1 "[32, 124]"] obtain vb where
    2: "draw_graphic ref_env va LINE_PALETTE_1 [32, 124] 2 False = (vb, False)"
      "v_col vb = 15" "draws narrow_view vb"
    by (auto simp add: int_of_ulong_def)
  from narrow_graphic [OF 2(3,2), of 2 LINE_PALETTE_6 "[32, 124]"] obtain v3 where
    3: "draw_graphic ref_env vb LINE_PALETTE_6 [32, 124] 2 False = (v3, False)"
      "v_col v3 = 17" "draws narrow_view v3"
    by (auto simp add: int_of_ulong_def)
  note b = narrow_blank [OF 3(3,2)]
  have "draw_graph ref_env v2 test_canvas = Some (v3, False)"
    unfolding draw_graph_def test_canvas_def
    using 1(1) 2(1) 3(1) b
    by (simp add: get_graph_color_def graph_colors_def draw_graph_fn_def draw_graph_chtype_def)
  then have "draw_commit_title_column ref_env v2 test_columns = Some (v3, False)"
    by (simp add: draw_commit_title_column_def test_columns_def draw_refs_def)
  with 3(2) show ?thesis by blast
qed

lemma narrow_row:
  "\<exists>v3. view_columns_draw ref_env test_ops narrow_view 0 0 = Some (v3, True) \<and> v_col v3 = 17"
proof -
  from narrow_lineno obtain v1 where
    1: "draw_lineno ref_env narrow_view 0 = Some (v1, False)" "v_col v1 = 4" "draws narrow_view v1"
    by blast
  from narrow_id [OF 1(3,2)] obtain v2 where
    2: "view_column_draw ref_env v1 0 0 test_columns VIEW_COLUMN_ID 7 = Some (v2, False)"
      "v_col v2 = 12" "draws narrow_view v2"
    by blast
  from narrow_title [OF 2(3,2)] obtain v3 where
    3: "draw_commit_title_column ref_env v2 test_columns = Some (v3, False)" "v_col v3 = 17"
    by blast
  from 1(3) have i1: "v_columns_info v1 = [3, 7, 0]" by (simp add: draws_def)
  from 2(3) have i2: "v_columns_info v2 = [3, 7, 0]" by (simp add: draws_def)
  have "view_columns_draw ref_env test_ops narrow_view 0 0 = Some (v3, True)"
    using 1(1) 2(1) 3(1)
    by (simp add: view_columns_draw_def test_ops_def view_column_draw_def i1 i2)
  with 3(2) show ?thesis by blast
qed

section \<open>Claims\<close>

subsection \<open>C1: the width of a field\<close>

text \<open>
  C1, as amended. For \<^verbatim>\<open>draw_field\<close> with a configured width \<open>w \<ge> 0\<close>, any alignment
  and text null or not, when the output conversion is off or succeeds and the cursor is
  within the bound \<^verbatim>\<open>width + pos.col\<close>: if at least \<open>w + 1\<close> cells remain,
  \<open>view.col\<close> advances by exactly \<open>w + 1\<close>; if fewer remain, \<open>view.col\<close> does not
  go back and advances by at most the cells that remain. The width is an \<^verbatim>\<open>int\<close>
  and so is \<open>w + 1\<close>.
\<close>

theorem draw_field_width:
  assumes "width_engine_ok env" and "iconv_ok env" and "0 \<le> width" and "width + 1 < 2 ^ 31"
    and "within view"
  shows "(width + 1 \<le> cells_left view \<longrightarrow>
            uint (v_col (fst (draw_field env view type tx width align trim)))
              = uint (v_col view) + (width + 1)) \<and>
         (cells_left view < width + 1 \<longrightarrow>
            uint (v_col view) \<le> uint (v_col (fst (draw_field env view type tx width align trim))) \<and>
            uint (v_col (fst (draw_field env view type tx width align trim)))
              \<le> uint (v_col view) + cells_left view)"
proof -
  let ?f = "draw_field env view type tx width align trim"
  note r = within_VML [OF assms(5)]
  from assms(5) have b: "0 \<le> cells_left view" "uint (v_col view) + cells_left view < 2 ^ 64"
    by (simp_all add: within_def cells_left_def)
  have whole: "width + 1 \<le> cells_left view \<Longrightarrow>
      uint (v_col (fst ?f)) = uint (v_col view) + (width + 1)"
  proof -
    assume a: "width + 1 \<le> cells_left view"
    then have room: "width + 1 \<le> uint (VIEW_MAX_LEN view)" by (simp only: r)
    from assms(3) have p: "0 \<le> width + 1" by simp
    from a b have "uint (v_col view) + (width + 1) < 2 ^ 64" by linarith
    from uint_add_of_int [OF p this] draw_field_exact [OF assms(1,2,3,4) room, of type tx align trim]
    show ?thesis by simp
  qed
  have part: "cells_left view < width + 1 \<Longrightarrow>
      uint (v_col (fst ?f)) = uint (v_col view) + cells_left view"
  proof -
    assume "cells_left view < width + 1"
    then have short: "uint (VIEW_MAX_LEN view) < width + 1" by (simp only: r)
    from uint_add_of_int [OF b]
      draw_field_short [OF assms(1,2,4) short, of type tx align trim]
    show ?thesis by (simp only: r)
  qed
  from whole part b(1) show ?thesis by simp
qed

theorem draw_field_width_witness:
  "width_engine_ok ref_env \<and> iconv_ok ref_env \<and> (0::int) \<le> 5 \<and> (5::int) + 1 < 2 ^ 31 \<and>
   within (test_view 20 [False]) \<and> 5 + 1 \<le> cells_left (test_view 20 [False]) \<and>
   uint (v_col (fst (draw_field ref_env (test_view 20 [False]) LINE_DATE (Some ''abc'') 5 ALIGN_RIGHT False)))
     = 6 \<and>
   within (test_view 4 [False]) \<and> cells_left (test_view 4 [False]) < 5 + 1 \<and>
   uint (v_col (fst (draw_field ref_env (test_view 4 [False]) LINE_DATE (Some ''abc'') 5 ALIGN_RIGHT False)))
     \<le> 4"
proof -
  have w: "within (test_view 20 [False])" "within (test_view 4 [False])"
    by (simp_all add: within_def cells_left_def)
  have n: "(5::int) + 1 < 2 ^ 31" by simp
  from draw_field_width [OF ref_env_engine ref_env_iconv _ n w(1),
      of LINE_DATE "Some ''abc''" ALIGN_RIGHT False]
    draw_field_width [OF ref_env_engine ref_env_iconv _ n w(2),
      of LINE_DATE "Some ''abc''" ALIGN_RIGHT False]
    ref_env_engine ref_env_iconv w
  show ?thesis by (simp add: cells_left_def)
qed

text \<open>
  C1 as stated fails when the output conversion fails: \<^verbatim>\<open>draw_chars\<close> then returns
  before it moves the cursor, for the text and for every run of blanks, so a field of width
  5 in a viewport of 20 free cells leaves \<open>view.col\<close> where it was.
\<close>

theorem draw_field_iconv_failure:
  "within (test_view 20 [False]) \<and> 5 + 1 \<le> cells_left (test_view 20 [False]) \<and>
   draw_field iconv_fail_env (test_view 20 [False]) LINE_DATE (Some ''abc'') 5 ALIGN_LEFT False
     = (test_view 20 [False], False)"
  by (simp add: within_def cells_left_def draw_field_def draw_field_text_def draw_space_def
      draw_chars_def Let_def draw_space_loop.simps ref_utf8_length_def space_def int_of_ulong_def)

subsection \<open>C5: \<^verbatim>\<open>draw_chars\<close> without a budget\<close>

text \<open>
  C5, as amended. For every view and text, \<^verbatim>\<open>draw_chars\<close> with \<open>max_len \<le> 0\<close> leaves
  the view as it is (no cell written, \<open>view.col\<close> unchanged) and returns
  \<^verbatim>\<open>VIEW_MAX_LEN(view) <= 0\<close>, not the constant true: with the cursor within the bound
  \<^verbatim>\<open>width + pos.col\<close> the result is true when no cell remains and false when cells
  remain.
\<close>

theorem draw_chars_no_budget:
  assumes "max_len \<le> 0"
  shows "draw_chars env view type string max_len use_tilde = (view, VIEW_MAX_LEN view \<le> 0) \<and>
         (within view \<longrightarrow> (VIEW_MAX_LEN view \<le> 0) = (cells_left view = 0))"
proof
  from assms show "draw_chars env view type string max_len use_tilde
      = (view, VIEW_MAX_LEN view \<le> 0)"
    by (rule draw_chars_nonpos)
  show "within view \<longrightarrow> (VIEW_MAX_LEN view \<le> 0) = (cells_left view = 0)"
  proof
    assume "within view"
    from within_VML [OF this] show "(VIEW_MAX_LEN view \<le> 0) = (cells_left view = 0)"
      by (simp only: ulong_le_0)
  qed
qed

theorem draw_chars_no_budget_witness:
  "(0::int) \<le> 0 \<and> within (test_view 10 [False]) \<and> within (test_view 0 [False]) \<and>
   draw_chars ref_env (test_view 10 [False]) LINE_DEFAULT ''abc'' 0 True = (test_view 10 [False], False) \<and>
   draw_chars ref_env (test_view 0 [False]) LINE_DEFAULT ''abc'' 0 True = (test_view 0 [False], True)"
proof -
  have w: "within (test_view 10 [False])" "within (test_view 0 [False])"
    by (simp_all add: within_def cells_left_def)
  from draw_chars_no_budget [of 0 ref_env "test_view 10 [False]" LINE_DEFAULT "''abc''" True]
    draw_chars_no_budget [of 0 ref_env "test_view 0 [False]" LINE_DEFAULT "''abc''" True] w
  show ?thesis by (simp add: cells_left_def)
qed

text \<open>
  C5 as stated fails in a viewport with free cells: the call returns false there.
\<close>

theorem draw_chars_no_budget_returns_false:
  "\<not> snd (draw_chars ref_env (test_view 10 [False]) LINE_DEFAULT ''abc'' 0 True)"
  by (simp add: draw_chars_def)

subsection \<open>C2: the column cursor during a row render\<close>

text \<open>
  C2 states the intent of the clipping: during a row render \<open>view.col\<close> never exceeds
  \<^verbatim>\<open>view.width + view.pos.col\<close>, and a primitive returns true exactly when the bound
  is reached. The code misses it. \<^verbatim>\<open>draw_graphic\<close> counts its separator with
  \<^verbatim>\<open>view->col++\<close> outside the guard that decides whether the separator is drawn, so the
  cursor can pass the bound by one; \<^verbatim>\<open>VIEW_MAX_LEN\<close> then wraps around, the test
  \<^verbatim>\<open>VIEW_MAX_LEN(view) <= 0\<close> is false, and the primitives that follow are not clipped.

  In a view one cell wide, one line drawing cell with its separator moves the cursor from
  0 to 2 and returns false. In a view three cells wide, the line number column leaves the
  cursor at 4 and returns false, and the row render of \<^verbatim>\<open>view_columns_draw\<close> goes on to
  column 17.
\<close>

theorem separator_passes_bound:
  "v_width (test_view 1 [False]) = 1 \<and> p_col (v_pos (test_view 1 [False])) = 0 \<and>
   v_col (test_view 1 [False]) = 0 \<and>
   cursor_after (Some (draw_graphic ref_env (test_view 1 [False]) LINE_DEFAULT [124] 1 True))
     = Some (2, False) \<and>
   v_width narrow_view = 3 \<and> p_col (v_pos narrow_view) = 0 \<and> v_col narrow_view = 0 \<and>
   cursor_after (draw_lineno ref_env narrow_view 0) = Some (4, False) \<and>
   cursor_after (view_columns_draw ref_env test_ops narrow_view 0 0) = Some (17, True)"
proof -
  let ?g = "draw_graphic ref_env (test_view 1 [False]) LINE_DEFAULT [124] 1 True"
  have c: "v_col (fst ?g) = 2"
    by (simp add: draw_graphic_col int_of_ulong_def)
  from draws_VML [OF draw_graphic_draws [of "test_view 1 [False]" ref_env LINE_DEFAULT "[124]" 1 True]] c
  have "VIEW_MAX_LEN (fst ?g) \<noteq> 0" by simp
  then have "\<not> snd ?g" by (simp only: draw_graphic_ret0) simp
  with c have 1: "cursor_after (Some ?g) = Some (2, False)"
    by (simp add: cursor_after_def)
  from narrow_lineno have 2: "cursor_after (draw_lineno ref_env narrow_view 0) = Some (4, False)"
    by (auto simp add: cursor_after_def)
  from narrow_row
  have 3: "cursor_after (view_columns_draw ref_env test_ops narrow_view 0 0) = Some (17, True)"
    by (auto simp add: cursor_after_def)
  from 1 2 3 show ?thesis by simp
qed

subsection \<open>C6: a right-aligned field\<close>

text \<open>
  C6. \<^verbatim>\<open>draw_field\<close> with \<^verbatim>\<open>ALIGN_RIGHT\<close>, width 10 and a text four columns wide, in a
  viewport that has at least 11 cells left and is not scrolled past the cursor, with no
  output conversion configured: the field writes 6 blanks, then the text, then one blank,
  and \<open>view.col\<close> advances by the whole span of 11. The cursor is an
  \<^verbatim>\<open>unsigned long\<close>; the 11 columns of the field are columns it can hold.
\<close>

theorem draw_field_align_right:
  assumes "width_engine_ok env" and "blank_bytes_ok env" and "\<not> opt_iconv_out env"
    and "11 \<le> VIEW_MAX_LEN view" and "p_col (v_pos view) \<le> v_col view"
    and "utf8_width_max env t 11 = 4"
    and "utf8_length env t 0 4 trim (opt_tab_size env) = (int (length t), t, 4, False)"
    and "uint (v_col view) + 11 < 2 ^ 64"
  shows "v_col (fst (draw_field env view type (Some t) 10 ALIGN_RIGHT trim)) = v_col view + 11 \<and>
         cells (written view (fst (draw_field env view type (Some t) 10 ALIGN_RIGHT trim)))
           = replicate 6 (of_char CHR '' '') @ map of_char t @ [of_char CHR '' '']"
proof -
  note e = assms(1) and bb = assms(2) and ni = assms(3) and nw = assms(8)
  let ?pad = "draw_space env view type 6 6"
  let ?v1 = "fst ?pad"
  let ?tx = "draw_chars env ?v1 type t 4 trim"
  let ?v2 = "fst ?tx"
  let ?sp = "draw_space env ?v2 LINE_DEFAULT 1 1"
  let ?v3 = "fst ?sp"
  from assms(4) have room: "11 \<le> uint (VIEW_MAX_LEN view)" by (simp add: word_le_def)
  from assms(4) have "min (VIEW_MAX_LEN view) (word_of_int (10 + 1)) = 11" by simp
  then have mx: "int_of_ulong (min (VIEW_MAX_LEN view) (word_of_int (10 + 1))) = 11"
    by (simp add: int_of_ulong_def)
  from assms(6) have lp: "(6::int) = 11 - utf8_width_max env t 11 - 1" by simp
  have d1: "draws view ?v1" by (rule draw_space_draws)
  have d2: "draws ?v1 ?v2" by (rule draw_chars_draws)
  have d3: "draws ?v2 ?v3" by (rule draw_space_draws)
  from draw_space_blanks [OF e bb ni assms(5), of 6 type]
  have c1: "v_col ?v1 = v_col view + word_of_int 6"
    and w1: "cells (written view ?v1) = replicate 6 (of_char CHR '' '')" by simp_all
  from room have "(6::int) \<le> uint (VIEW_MAX_LEN view)" by simp
  from draws_advance [OF d1 c1 _ this] room
  have r1: "5 \<le> uint (VIEW_MAX_LEN ?v1)" by simp
  then have nf1: "\<not> snd ?pad" by (simp add: draw_space_ret_uint)
  from nw have "uint (v_col view) + 6 < 2 ^ 64" by simp
  from ulong_le_add [OF assms(5) _ this] d1 c1
  have ns1: "p_col (v_pos ?v1) \<le> v_col ?v1" by (simp add: draws_def)
  have nt: "\<not> (False \<and> trim)" by simp
  from draw_chars_plain [OF ni _ ns1 assms(7) nt, of type]
  have c2: "v_col ?v2 = v_col ?v1 + word_of_int 4"
    and w2: "cells (written ?v1 ?v2) = map of_char t" by simp_all
  from r1 have "(4::int) \<le> uint (VIEW_MAX_LEN ?v1)" by simp
  from draws_advance [OF d2 c2 _ this] r1
  have r2: "1 \<le> uint (VIEW_MAX_LEN ?v2)" by simp
  then have nf2: "\<not> snd ?tx" by (simp add: draw_chars_ret_uint)
  from c1 c2 have c12: "v_col ?v2 = v_col view + word_of_int 10" by simp
  from nw have "uint (v_col view) + 10 < 2 ^ 64" by simp
  from ulong_le_add [OF assms(5) _ this] d1 d2 c12
  have ns2: "p_col (v_pos ?v2) \<le> v_col ?v2" by (simp add: draws_def)
  from draw_space_blanks [OF e bb ni ns2, of 1 LINE_DEFAULT]
  have c3: "v_col ?v3 = v_col ?v2 + word_of_int 1"
    and w3: "cells (written ?v2 ?v3) = [of_char CHR '' '']" by simp_all
  from pad_budget [OF col_cong_pad, of 5 "v_col view" 6 4] c1 c2
  have "int_of_ulong (word_of_int 5 - (v_col ?v2 - word_of_int (int_of_ulong (v_col view) + 6))) = 1"
    by simp
  then have sp: "draw_space env ?v2 LINE_DEFAULT
      (int_of_ulong (word_of_int 5 - (v_col ?v2 - word_of_int (int_of_ulong (v_col view) + 6)))) 5
        = ?sp"
    by (simp add: draw_space_def)
  have ft: "draw_field_text env ?v1 type t 5 (int_of_ulong (v_col view) + 6) trim = ?sp"
    unfolding draw_field_text_def Let_def using nf2 sp by simp
  have "draw_field env view type (Some t) 10 ALIGN_RIGHT trim = ?sp"
    unfolding draw_field_pad [OF mx lp refl, simplified] using nf1 ft by simp
  moreover have "v_col ?v3 = v_col view + 11" using c1 c2 c3 by simp
  moreover have "cells (written view ?v3)
      = replicate 6 (of_char CHR '' '') @ map of_char t @ [of_char CHR '' '']"
    using written_trans [OF d1 draws_trans [OF d2 d3]] written_trans [OF d2 d3] w1 w2 w3
    by simp
  ultimately show ?thesis by simp
qed

theorem draw_field_align_right_witness:
  "width_engine_ok ref_env \<and> blank_bytes_ok ref_env \<and> \<not> opt_iconv_out ref_env \<and>
   11 \<le> VIEW_MAX_LEN (test_view 20 [False]) \<and>
   p_col (v_pos (test_view 20 [False])) \<le> v_col (test_view 20 [False]) \<and>
   utf8_width_max ref_env ''abcd'' 11 = 4 \<and>
   utf8_length ref_env ''abcd'' 0 4 False (opt_tab_size ref_env) = (int (length ''abcd''), ''abcd'', 4, False) \<and>
   uint (v_col (test_view 20 [False])) + 11 < 2 ^ 64 \<and>
   v_col (fst (draw_field ref_env (test_view 20 [False]) LINE_FILE_SIZE (Some ''abcd'') 10 ALIGN_RIGHT False)) = 11 \<and>
   cells (written (test_view 20 [False]) (fst (draw_field ref_env (test_view 20 [False]) LINE_FILE_SIZE (Some ''abcd'') 10 ALIGN_RIGHT False)))
     = [32, 32, 32, 32, 32, 32, 97, 98, 99, 100, 32]"
proof -
  have h: "11 \<le> VIEW_MAX_LEN (test_view 20 [False])"
    "p_col (v_pos (test_view 20 [False])) \<le> v_col (test_view 20 [False])"
    "utf8_width_max ref_env ''abcd'' 11 = 4"
    "utf8_length ref_env ''abcd'' 0 4 False (opt_tab_size ref_env) = (int (length ''abcd''), ''abcd'', 4, False)"
    "uint (v_col (test_view 20 [False])) + 11 < 2 ^ 64"
    by (simp_all add: ref_utf8_length_def)
  have n: "\<not> opt_iconv_out ref_env" by simp
  from draw_field_align_right [OF ref_env_engine ref_env_blank_bytes n h, of LINE_FILE_SIZE]
    ref_env_engine ref_env_blank_bytes n h
  show ?thesis by (simp add: eval_nat_numeral)
qed

subsection \<open>C10: \<^verbatim>\<open>draw_text_expanded\<close> terminates\<close>

text \<open>
  C10. When \<^verbatim>\<open>string_expand\<close> consumes at least one byte of every string that is not
  empty, \<^verbatim>\<open>draw_text_expanded\<close> returns for every input string, view and budget; and a
  pass over a string that is not empty leaves a strictly shorter suffix for the next pass.
\<close>

theorem draw_text_expanded_terminates:
  assumes "string_expand_ok env"
  shows "(\<exists>view' full.
            draw_text_expanded env view type string max_len use_tilde = Some (view', full)) \<and>
         (string \<noteq> [] \<longrightarrow>
            length (drop (snd (string_expand env string (opt_tab_size env))) string)
              < length string)"
  using draw_text_expanded_returns [OF assms] string_expand_progress [OF assms]
  by blast

theorem draw_text_expanded_terminates_witness:
  "string_expand_ok ref_env \<and> ''abc'' \<noteq> [] \<and>
   (\<exists>view' full.
      draw_text_expanded ref_env (test_view 20 [False]) LINE_DEFAULT ''abc'' 20 True
        = Some (view', full)) \<and>
   length (drop (snd (string_expand ref_env ''abc'' (opt_tab_size ref_env))) ''abc'')
     < length ''abc''"
  using draw_text_expanded_terminates [OF ref_env_string_expand,
      of "test_view 20 [False]" LINE_DEFAULT "''abc''" 20 True]
    ref_env_string_expand
  by simp

subsection \<open>C4: the cells of a graph canvas\<close>



subsection \<open>C8: \<^verbatim>\<open>view_columns_draw\<close> always returns true\<close>

text \<open>
  C8. Whenever \<^verbatim>\<open>view_columns_draw\<close> returns, it returns true, whether
  \<^verbatim>\<open>get_columns\<close> failed or the columns were drawn; it does return when
  \<^verbatim>\<open>string_expand\<close> makes progress, the line number interval is not zero and the lane
  colours are in the palette; and \<^verbatim>\<open>draw_view_line\<close> built on it never returns false
  for a materialized row.
\<close>

theorem view_columns_draw_true:
  "(\<forall>view' full. view_columns_draw env ops view line lineno = Some (view', full) \<longrightarrow> full) \<and>
   (string_expand_ok env \<and> interval_ok env \<and> columns_ok ops \<longrightarrow>
      (\<exists>view'. view_columns_draw env ops view line lineno = Some (view', True))) \<and>
   (\<forall>view' full.
      p_offset (v_pos view) + lineno < v_lines view \<and>
      draw_view_line ops (view_columns_draw env ops) view lineno = Some (view', full) \<longrightarrow> full)"
proof (intro conjI allI impI)
  fix view' full
  assume "view_columns_draw env ops view line lineno = Some (view', full)"
  then show full by (rule view_columns_draw_full)
next
  assume "string_expand_ok env \<and> interval_ok env \<and> columns_ok ops"
  then show "\<exists>view'. view_columns_draw env ops view line lineno = Some (view', True)"
    by (auto intro: view_columns_draw_returns)
next
  fix view' full
  assume "p_offset (v_pos view) + lineno < v_lines view \<and>
      draw_view_line ops (view_columns_draw env ops) view lineno = Some (view', full)"
  then show full by (auto dest: draw_view_line_full)
qed

theorem view_columns_draw_true_witness:
  "view_columns_draw ref_env fail_ops (test_view 20 [True]) 0 0 = Some (test_view 20 [True], True) \<and>
   string_expand_ok ref_env \<and> interval_ok ref_env \<and> columns_ok test_ops \<and>
   (\<exists>view'. view_columns_draw ref_env test_ops (test_view 20 [True]) 0 0 = Some (view', True)) \<and>
   p_offset (v_pos (test_view 20 [True])) + 0 < v_lines (test_view 20 [True]) \<and>
   (\<exists>view'. draw_view_line fail_ops (view_columns_draw ref_env fail_ops) (test_view 20 [True]) 0
               = Some (view', True))"
proof -
  have 1: "view_columns_draw ref_env fail_ops (test_view 20 [True]) 0 0 = Some (test_view 20 [True], True)"
    by (simp add: view_columns_draw_def fail_ops_def)
  have r: "p_offset (v_pos (test_view 20 [True])) + 0 < v_lines (test_view 20 [True])"
    by (simp add: v_lines_def)
  from draw_view_line_callback [OF r fail_ops_select, of "view_columns_draw ref_env fail_ops"]
  obtain view5 where "draw_view_line fail_ops (view_columns_draw ref_env fail_ops) (test_view 20 [True]) 0
      = view_columns_draw ref_env fail_ops view5 (p_offset (v_pos (test_view 20 [True])) + 0) 0"
    by blast
  then have 3: "draw_view_line fail_ops (view_columns_draw ref_env fail_ops) (test_view 20 [True]) 0
      = Some (view5, True)"
    by (simp add: view_columns_draw_def fail_ops_def)
  note t = view_columns_draw_true [of ref_env test_ops "test_view 20 [True]" 0 0]
  from t ref_env_string_expand ref_env_interval test_ops_columns
  have 2: "\<exists>view'. view_columns_draw ref_env test_ops (test_view 20 [True]) 0 0 = Some (view', True)"
    by blast
  from 1 2 3 r ref_env_string_expand ref_env_interval test_ops_columns show ?thesis by blast
qed

subsection \<open>C9: the flags of a row whose columns cannot be had\<close>

text \<open>
  C9, as amended. For a materialized row whose \<^verbatim>\<open>get_columns\<close> lookup fails, with a
  selection hook that leaves the rows and the window's cells alone:
  \<^verbatim>\<open>draw_view_line\<close> returns true, has cleared the row's dirty and cleareol flags,
  has written no cell, and leaves the selected flag set exactly when the row is the view's
  cursor row (cleared otherwise); a later dirty scan steps over the row.
\<close>

theorem draw_view_line_clears_flags:
  assumes "p_offset (v_pos view) + lineno < v_lines view"
    and "\<forall>v. get_columns ops v (p_offset (v_pos view) + lineno) = None"
    and "select_ok ops"
    and "\<forall>v l. cells (written v (select ops v l)) = []"
  shows "\<exists>view'.
           draw_view_line ops (view_columns_draw env ops) view lineno = Some (view', True) \<and>
           \<not> l_dirty (v_line view' ! (p_offset (v_pos view) + lineno)) \<and>
           \<not> l_cleareol (v_line view' ! (p_offset (v_pos view) + lineno)) \<and>
           l_selected (v_line view' ! (p_offset (v_pos view) + lineno))
             = (p_offset (v_pos view) + lineno = p_lineno (v_pos view)) \<and>
           cells (written view view') = [] \<and>
           (\<forall>draw dirty.
              int lineno < v_height view' \<longrightarrow>
              redraw_view_dirty_loop ops draw view' dirty lineno
                = redraw_view_dirty_loop ops draw view' dirty (lineno + 1))"
proof -
  let ?line = "p_offset (v_pos view) + lineno"
  from draw_view_line_callback [OF assms(1,3), of "view_columns_draw env ops"] assms(4)
  obtain view5 ws where
    e: "draw_view_line ops (view_columns_draw env ops) view lineno
          = view_columns_draw env ops view5 ?line lineno"
    and l: "v_line view5 = (v_line view)[?line := repainted view ?line]"
    and p: "v_pos view5 = v_pos view"
    and w: "v_win view5 = v_win view @ Wmove lineno 0 # ws" and c: "cells ws = []"
    by blast
  from assms(1) have r: "?line < length (v_line view)" by (simp add: v_lines_def)
  from e assms(2) have 1: "draw_view_line ops (view_columns_draw env ops) view lineno
          = Some (view5, True)"
    by (simp add: view_columns_draw_def)
  from l r have f: "v_line view5 ! ?line = repainted view ?line" by simp
  then have 2: "\<not> l_dirty (v_line view5 ! ?line)" "\<not> l_cleareol (v_line view5 ! ?line)"
    "l_selected (v_line view5 ! ?line) = (?line = p_lineno (v_pos view))"
    by (simp_all add: repainted_def)
  from written_append [OF w] c have 3: "cells (written view view5) = []" by simp
  from l r p have r5: "p_offset (v_pos view5) + lineno < v_lines view5"
    by (simp add: v_lines_def)
  from 2(1) p have d5: "\<not> l_dirty (v_line view5 ! (p_offset (v_pos view5) + lineno))" by simp
  have 4: "\<forall>draw dirty.
              int lineno < v_height view5 \<longrightarrow>
              redraw_view_dirty_loop ops draw view5 dirty lineno
                = redraw_view_dirty_loop ops draw view5 dirty (lineno + 1)"
    using redraw_view_dirty_loop_clean [OF _ r5 d5] by blast
  from 1 2 3 4 show ?thesis by blast
qed

theorem draw_view_line_clears_flags_witness:
  "p_offset (v_pos (test_view 20 [True, True])) + 1 < v_lines (test_view 20 [True, True]) \<and>
   (\<forall>v. get_columns fail_ops v (p_offset (v_pos (test_view 20 [True, True])) + 1) = None) \<and>
   select_ok fail_ops \<and>
   (\<forall>v l. cells (written v (select fail_ops v l)) = []) \<and>
   (\<exists>view'.
      draw_view_line fail_ops (view_columns_draw ref_env fail_ops) (test_view 20 [True, True]) 1
        = Some (view', True) \<and>
      \<not> l_dirty (v_line view' ! 1) \<and> \<not> l_cleareol (v_line view' ! 1) \<and>
      \<not> l_selected (v_line view' ! 1) \<and> cells (written (test_view 20 [True, True]) view') = [])"
proof -
  have h: "p_offset (v_pos (test_view 20 [True, True])) + 1 < v_lines (test_view 20 [True, True])"
    "\<forall>v. get_columns fail_ops v (p_offset (v_pos (test_view 20 [True, True])) + 1) = None"
    "\<forall>v l. cells (written v (select fail_ops v l)) = []"
    by (simp_all add: v_lines_def fail_ops_def)
  from draw_view_line_clears_flags [OF h(1,2) fail_ops_select h(3), of ref_env]
  have "\<exists>view'.
      draw_view_line fail_ops (view_columns_draw ref_env fail_ops) (test_view 20 [True, True]) 1
        = Some (view', True) \<and>
      \<not> l_dirty (v_line view' ! 1) \<and> \<not> l_cleareol (v_line view' ! 1) \<and>
      \<not> l_selected (v_line view' ! 1) \<and> cells (written (test_view 20 [True, True]) view') = []"
    by simp blast
  with h fail_ops_select show ?thesis by blast
qed

text \<open>
  C9 as stated fails for the selected flag of the cursor row: \<^verbatim>\<open>draw_view_line\<close> clears
  it and sets it again before the draw callback runs, so after a failed \<^verbatim>\<open>get_columns\<close>
  the cursor row is still marked selected.
\<close>

theorem draw_view_line_cursor_row_selected:
  "row_flags (draw_view_line fail_ops (view_columns_draw ref_env fail_ops) (test_view 20 [True]) 0) 0
     = Some (True, False, False)"
  by (simp add: row_flags_def draw_view_line_def view_columns_draw_def fail_ops_def Let_def
      line_update_def set_view_attr_def v_lines_def plain_line_def)

subsection \<open>C7: the format of a line number\<close>

text \<open>
  C7, as amended. In \<^verbatim>\<open>draw_lineno_custom\<close> the numeric field is \<open>max 3 view.digits\<close>
  wide. The format is \<^verbatim>\<open>%<w>d\<close> with \<open>w = max 3 view.digits\<close> when
  \<open>view.digits \<le> 9\<close>, which right-justifies the number and pads it on the left with
  blanks (not zeros) to that width; when \<open>view.digits\<close> exceeds 9 the format is
  \<^verbatim>\<open>%1d\<close> and the number is drawn unpadded. The text is drawn within
  \<^verbatim>\<open>MIN(VIEW_MAX_LEN(view), digits3)\<close> cells and followed by the separator.
\<close>

theorem lineno_format:
  assumes "string_format env = ref_string_format" and "lineno < 10 ^ 9"
    and "lineno = 1 \<or> (to_uint interval \<noteq> 0 \<and> lineno mod to_uint interval = 0)"
  shows "digits3 view = max 3 (v_digits view) \<and>
         lineno_fmt view
           = [CHR ''%'', char_of (48 + (if v_digits view \<le> 9 then max 3 (v_digits view) else 1)),
              CHR ''d''] \<and>
         draw_lineno_custom env view lineno True interval
           = Some (draw_graphic env
                     (fst (draw_chars env view LINE_LINE_NUMBER
                             (if v_digits view \<le> 9
                              then replicate (max 3 (v_digits view) - length (decimal lineno)) CHR '' ''
                                     @ decimal lineno
                              else decimal lineno)
                             (int_of_ulong (min (VIEW_MAX_LEN view)
                                              (word_of_int (int (max 3 (v_digits view))))))
                             True))
                     LINE_DEFAULT
                     [if opt_line_graphics env \<noteq> GRAPHIC_ASCII then ACS_VLINE env
                      else of_char CHR ''|''] 1 True)"
proof -
  have d: "digits3 view = max 3 (v_digits view)" by (simp add: digits3_def max_def)
  from assms(1) ref_string_format_lineno [OF assms(2), of view]
  have f: "string_format env (lineno_fmt view) lineno
     = Some (if v_digits view \<le> 9
             then replicate (max 3 (v_digits view) - length (decimal lineno)) CHR '' '' @ decimal lineno
             else decimal lineno)" by simp
  from draw_lineno_custom_numbered [OF assms(3) f] d lineno_fmt_width [of view]
  show ?thesis by simp
qed

theorem lineno_format_witness:
  "string_format ref_env = ref_string_format \<and> (15::nat) < 10 ^ 9 \<and>
   to_uint 5 \<noteq> 0 \<and> (15::nat) mod to_uint 5 = 0 \<and>
   digits3 (test_view 20 [False]) = 3 \<and>
   lineno_fmt (test_view 20 [False]) = ''%3d'' \<and>
   draw_lineno_custom ref_env (test_view 20 [False]) 15 True 5
     = Some (draw_graphic ref_env
               (fst (draw_chars ref_env (test_view 20 [False]) LINE_LINE_NUMBER '' 15'' 3 True))
               LINE_DEFAULT [4194424] 1 True)"
proof -
  have h: "string_format ref_env = ref_string_format" "(15::nat) < 10 ^ 9"
    "to_uint 5 \<noteq> 0" "(15::nat) mod to_uint 5 = 0"
    by (simp_all add: to_uint_def)
  then have "15 = 1 \<or> (to_uint 5 \<noteq> 0 \<and> (15::nat) mod to_uint 5 = 0)" by simp
  from lineno_format [OF h(1,2) this, of "test_view 20 [False]"] h
  show ?thesis
    by (simp add: decimal_15 char_of_51 int_of_ulong_def)
qed

text \<open>
  C7 as stated fails on the padding: the digit \<^verbatim>\<open>'0' + n\<close> written into the format is
  the field width, not the flag \<^verbatim>\<open>0\<close>. With three digits configured, line 1 is formatted
  by \<^verbatim>\<open>%3d\<close> as two blanks and the digit 1, and these are the cells that are drawn
  before the separator.
\<close>

theorem lineno_blank_padded:
  "lineno_fmt (test_view 20 [False]) = ''%3d'' \<and>
   string_format ref_env (lineno_fmt (test_view 20 [False])) 1 = Some ''  1'' \<and>
   cells_drawn (test_view 20 [False]) (draw_lineno_custom ref_env (test_view 20 [False]) 1 True 5)
     = Some [32, 32, 49, 4194424, 32]"
proof -
  let ?v = "test_view 20 [False]"
  let ?c = "draw_chars ref_env ?v LINE_LINE_NUMBER ''  1'' 3 True"
  let ?g = "draw_graphic ref_env (fst ?c) LINE_DEFAULT [4194424] 1 True"
  have f: "lineno_fmt ?v = ''%3d''"
    by (simp add: lineno_fmt_width char_of_51)
  have s: "string_format ref_env (lineno_fmt ?v) 1 = Some ''  1''"
    using ref_string_format_lineno [of 1 ?v]
    by (simp add: decimal_Suc_0 numeral_2_eq_2)
  have "draw_lineno_custom ref_env ?v 1 True 5 = Some ?g"
    using draw_lineno_custom_numbered [of 1 5 ref_env ?v "''  1''"] s
    by (simp add: digits3_def int_of_ulong_def)
  then have r: "cells_drawn ?v (draw_lineno_custom ref_env ?v 1 True 5)
      = Some (cells (written ?v (fst ?g)))"
    by (simp add: cells_drawn_def)
  have u: "utf8_length ref_env ''  1'' 0 3 True (opt_tab_size ref_env) = (3, ''  1'', 3, False)"
    by (simp add: ref_utf8_length_def)
  have nt: "\<not> (False \<and> True)" by simp
  have ni: "\<not> opt_iconv_out ref_env" by simp
  have ns: "p_col (v_pos ?v) \<le> v_col ?v" by simp
  from draw_chars_plain [OF ni _ ns u nt, of LINE_LINE_NUMBER]
  have c1: "v_col (fst ?c) = 3" and w1: "cells (written ?v (fst ?c)) = [32, 32, 49]"
    by simp_all
  have d1: "draws ?v (fst ?c)" by (rule draw_chars_draws)
  have d2: "draws (fst ?c) (fst ?g)" by (rule draw_graphic_draws)
  from d1 have p: "p_col (v_pos (fst ?c)) = 0" by (simp add: draws_def)
  from draws_VML [OF d1] c1 have m: "VIEW_MAX_LEN (fst ?c) = 17" by simp
  have w2: "cells (written (fst ?c) (fst ?g)) = [4194424, 32]"
    by (simp add: draw_graphic_cells p c1 m int_of_ulong_def)
  from written_trans [OF d1 d2] w1 w2 have "cells (written ?v (fst ?g)) = [32, 32, 49, 4194424, 32]"
    by simp
  with f s r show ?thesis by simp
qed

subsection \<open>C3: the dirty scan\<close>




end
